theory Spec2Isabelle
  imports Main "HOL-Library.Word"
begin

unbundle bit_operations_syntax

section \<open>rvault: vault metadata, open, close and directory iteration\<close>

text \<open>
  A shallow embedding of \<^verbatim>\<open>src/core/rvault.c\<close> and of the metadata part of
  \<^verbatim>\<open>src/core/storage.h\<close>.  Buffers are byte lists, a pointer into a buffer is an
  offset, every failure branch of the C code is a value of the type \<open>error\<close>, and an
  access outside a buffer (undefined behaviour in C) is the error \<open>Mem_fault\<close>.
\<close>

subsection \<open>Bytes, 16-bit fields and host byte order\<close>

type_synonym byte = "8 word"
type_synonym bytes = "byte list"
type_synonym u16 = "16 word"

datatype errno = EEXIST | ENOENT

datatype error =
    Invalid_cipher
  | Crypto_create_failed
  | Gen_iv_failed
  | Set_iv_failed
  | Kdf_params_failed
  | Passphrase_key_failed
  | Set_key_failed
  | Alloc_failed
  | Assert_failed
  | Invalid_uid
  | No_server_url
  | Key_set_failed
  | Key_get_failed
  | Hmac_failed
  | Not_found
  | Not_a_directory
  | Open_failed errno
  | Write_failed
  | Metadata_corrupted
  | Incompatible_version
  | Verification_failed
  | Recovery_failed
  | Mem_fault
  | Null_deref

text \<open>Sequencing of fallible steps: the first failure is the result (\<^verbatim>\<open>goto err\<close>).\<close>

definition and_then :: "error + 'a \<Rightarrow> ('a \<Rightarrow> error + 'b) \<Rightarrow> error + 'b" where
  "and_then r f = (case r of Inl e \<Rightarrow> Inl e | Inr x \<Rightarrow> f x)"

definition or_fail :: "error \<Rightarrow> 'a option \<Rightarrow> error + 'a" where
  "or_fail e r = (case r of None \<Rightarrow> Inl e | Some x \<Rightarrow> Inr x)"

text \<open>\<^verbatim>\<open>ASSERT(c)\<close> aborts the program when the condition is false.\<close>

definition ASSERT :: "bool \<Rightarrow> error + unit" where
  "ASSERT c = (if c then Inr () else Inl Assert_failed)"

text \<open>
  \<^verbatim>\<open>htobe16\<close> and \<^verbatim>\<open>be16toh\<close> of \<^verbatim>\<open>endian.h\<close>: the identity on a big-endian host, a
  byte swap on a little-endian host.  The first argument says whether the host is
  little-endian.
\<close>

definition bswap16 :: "u16 \<Rightarrow> u16" where
  "bswap16 x = push_bit 8 x OR drop_bit 8 x"

definition htobe16 :: "bool \<Rightarrow> u16 \<Rightarrow> u16" where
  "htobe16 le x = (if le then bswap16 x else x)"

definition be16toh :: "bool \<Rightarrow> u16 \<Rightarrow> u16" where
  "be16toh le x = (if le then bswap16 x else x)"

text \<open>The two bytes of a \<^verbatim>\<open>uint16_t\<close> object in memory, lowest address first.\<close>

definition u16_bytes :: "bool \<Rightarrow> u16 \<Rightarrow> bytes" where
  "u16_bytes le x =
     (if le then [ucast x, ucast (drop_bit 8 x)] else [ucast (drop_bit 8 x), ucast x])"

definition u16_of_bytes :: "bool \<Rightarrow> byte \<Rightarrow> byte \<Rightarrow> u16" where
  "u16_of_bytes le b0 b1 =
     (if le then push_bit 8 (ucast b1) OR ucast b0 else push_bit 8 (ucast b0) OR ucast b1)"

text \<open>The big-endian (network order) encoding of a 16-bit number.\<close>

definition be16_bytes :: "nat \<Rightarrow> bytes" where
  "be16_bytes n = [of_nat (n div 256), of_nat (n mod 256)]"

subsection \<open>Buffers\<close>

text \<open>
  \<^verbatim>\<open>memcpy(buf + off, src, n)\<close> and a read of \<open>n\<close> bytes at \<open>buf + off\<close>, both
  checked against the size of the buffer.
\<close>

definition buf_write :: "bytes \<Rightarrow> nat \<Rightarrow> bytes \<Rightarrow> error + bytes" where
  "buf_write buf off src =
     (if off + length src \<le> length buf
      then Inr (take off buf @ src @ drop (off + length src) buf)
      else Inl Mem_fault)"

definition buf_read :: "bytes \<Rightarrow> nat \<Rightarrow> nat \<Rightarrow> error + bytes" where
  "buf_read buf off n =
     (if off + n \<le> length buf then Inr (take n (drop off buf)) else Inl Mem_fault)"

definition buf_read8 :: "bytes \<Rightarrow> nat \<Rightarrow> error + byte" where
  "buf_read8 buf off = (if off < length buf then Inr (buf ! off) else Inl Mem_fault)"

definition buf_read16 :: "bool \<Rightarrow> bytes \<Rightarrow> nat \<Rightarrow> error + u16" where
  "buf_read16 le buf off =
     (if off + 2 \<le> length buf then Inr (u16_of_bytes le (buf ! off) (buf ! (off + 1)))
      else Inl Mem_fault)"

definition calloc :: "bool \<Rightarrow> nat \<Rightarrow> error + bytes" where
  "calloc can_alloc n = (if can_alloc then Inr (replicate n 0) else Inl Alloc_failed)"

subsection \<open>The metadata header of storage.h\<close>

definition STORAGE_ALIGNMENT :: nat where
  "STORAGE_ALIGNMENT = 64"

text \<open>
  Modelled from the spec: \<^verbatim>\<open>roundup2\<close> of utils.h, which storage.h includes, rounds up
  to the next multiple of a power of two; the header is padded to a 64-byte boundary.
\<close>

definition roundup2 :: "nat \<Rightarrow> nat \<Rightarrow> nat" where
  "roundup2 x y = ((x + (y - 1)) div y) * y"

definition STORAGE_ALIGN :: "nat \<Rightarrow> nat" where
  "STORAGE_ALIGN x = roundup2 x STORAGE_ALIGNMENT"

text \<open>
  The packed struct \<^verbatim>\<open>rvault_hdr_t\<close> of storage.h: \<open>ver\<close> and \<open>cipher\<close> of one byte,
  \<open>iv_len\<close> and \<open>kp_len\<close> of type \<^verbatim>\<open>uint16_t\<close>, at these offsets.
\<close>

definition OFF_VER :: nat where "OFF_VER = 0"
definition OFF_CIPHER :: nat where "OFF_CIPHER = 1"
definition OFF_IV_LEN :: nat where "OFF_IV_LEN = 2"
definition OFF_KP_LEN :: nat where "OFF_KP_LEN = 4"

text \<open>
  Modelled from the spec: the fields \<open>uid\<close> and \<open>flags\<close> of the header, which rvault.c
  uses and the struct of storage.h does not declare.  They follow \<open>kp_len\<close> as in the
  layout table of the spec: 16 bytes of UID, then one byte of flags, which ends the
  packed prefix.  The flag NOAUTH is 1.
\<close>

definition OFF_UID :: nat where "OFF_UID = 6"
definition UID_LEN :: nat where "UID_LEN = 16"
definition OFF_FLAGS :: nat where "OFF_FLAGS = 22"
definition SIZEOF_HDR :: nat where "SIZEOF_HDR = 23"

definition RVAULT_FLAG_NOAUTH :: byte where
  "RVAULT_FLAG_NOAUTH = 1"

definition RVAULT_HDR_LEN :: nat where
  "RVAULT_HDR_LEN = STORAGE_ALIGN SIZEOF_HDR"

text \<open>Modelled from the spec: the HMAC-SHA3-256 tag has 32 bytes.\<close>

definition HMAC_SHA3_256_BUFLEN :: nat where
  "HMAC_SHA3_256_BUFLEN = 32"

definition UINT8_MAX :: nat where "UINT8_MAX = 255"
definition UINT16_MAX :: nat where "UINT16_MAX = 65535"

text \<open>The fields as the C code reads them: \<open>h->iv_len\<close> is the raw host-order value.\<close>

definition hdr_ver :: "bytes \<Rightarrow> error + byte" where
  "hdr_ver h = buf_read8 h OFF_VER"

definition hdr_cipher :: "bytes \<Rightarrow> error + byte" where
  "hdr_cipher h = buf_read8 h OFF_CIPHER"

definition hdr_flags :: "bytes \<Rightarrow> error + byte" where
  "hdr_flags h = buf_read8 h OFF_FLAGS"

definition hdr_iv_len :: "bool \<Rightarrow> bytes \<Rightarrow> error + u16" where
  "hdr_iv_len le h = buf_read16 le h OFF_IV_LEN"

definition hdr_kp_len :: "bool \<Rightarrow> bytes \<Rightarrow> error + u16" where
  "hdr_kp_len le h = buf_read16 le h OFF_KP_LEN"

definition hdr_uid :: "bytes \<Rightarrow> error + bytes" where
  "hdr_uid h = buf_read h OFF_UID UID_LEN"

text \<open>The macros of storage.h; a pointer \<open>h + n\<close> is the offset \<open>n\<close>.\<close>

definition RVAULT_HDR_TO_IV :: nat where
  "RVAULT_HDR_TO_IV = RVAULT_HDR_LEN"

definition RVAULT_HDR_TO_KP :: "bool \<Rightarrow> bytes \<Rightarrow> error + nat" where
  "RVAULT_HDR_TO_KP le h =
     and_then (hdr_iv_len le h) (\<lambda>ivl. Inr (RVAULT_HDR_TO_IV + unat (be16toh le ivl)))"

definition RVAULT_HDR_TO_HMAC :: "bool \<Rightarrow> bytes \<Rightarrow> error + nat" where
  "RVAULT_HDR_TO_HMAC le h =
     and_then (RVAULT_HDR_TO_KP le h) (\<lambda>kp.
     and_then (hdr_kp_len le h) (\<lambda>kpl. Inr (kp + unat (be16toh le kpl))))"

definition RVAULT_HMAC_DATALEN :: "bool \<Rightarrow> bytes \<Rightarrow> error + nat" where
  "RVAULT_HMAC_DATALEN le h =
     and_then (hdr_iv_len le h) (\<lambda>ivl.
     and_then (hdr_kp_len le h) (\<lambda>kpl.
       Inr (RVAULT_HDR_LEN + unat (be16toh le ivl) + unat (be16toh le kpl))))"

definition RVAULT_FILE_LEN :: "bool \<Rightarrow> bytes \<Rightarrow> error + nat" where
  "RVAULT_FILE_LEN le h =
     and_then (RVAULT_HMAC_DATALEN le h) (\<lambda>n. Inr (n + HMAC_SHA3_256_BUFLEN))"

subsection \<open>Crypto state and the environment of the vault core\<close>

text \<open>\<^verbatim>\<open>crypto_t\<close>: the cipher with the IV and the key currently installed.\<close>

record crypto_t =
  c_cipher :: nat
  c_iv :: "bytes option"
  c_key :: "bytes option"

type_synonym fileobj = nat

text \<open>\<^verbatim>\<open>rvault_t\<close>, with \<open>None\<close> for a NULL pointer.\<close>

record rvault_t =
  base_path :: "string option"
  uid :: bytes
  cipher :: nat
  crypto :: "crypto_t option"
  server_url :: "string option"
  file_list :: "fileobj list"
  file_count :: "32 word"

text \<open>
  What rvault.c takes from the rest of the program and from the host: the byte order and
  the page size of the host, constants of rvault.h and crypto.h, the primitives of
  crypto.c, the key-server client, the recovery import and the path resolver.  None of
  them is defined in rvault.c or storage.h, so each is a parameter.
\<close>

record env =
  le_host :: bool
  page_size :: nat
  can_alloc :: bool
  RVAULT_ABI_VER :: byte
  CRYPTO_CIPHER_PRIMARY :: nat
  RVAULT_META_FILE :: string
  RVAULT_META_PREF :: string
  RVAULT_META_PREFLEN :: nat
  crypto_cipher_id :: "string \<Rightarrow> nat"
  cipher_supported :: "nat \<Rightarrow> bool"
  cipher_iv_len :: "nat \<Rightarrow> nat"
  cipher_key_len :: "nat \<Rightarrow> nat"
  random_iv :: "nat \<Rightarrow> bytes option"
  kdf_create_params :: "bytes option"
  kdf_passphrase :: "string \<Rightarrow> bytes \<Rightarrow> nat \<Rightarrow> bytes option"
  hmac_sha3_256 :: "bytes \<Rightarrow> bytes \<Rightarrow> bytes option"
  hex_read_arbitrary_buf :: "string \<Rightarrow> bytes option"
  rvault_key_set :: "string \<Rightarrow> bytes \<Rightarrow> crypto_t \<Rightarrow> crypto_t option"
  rvault_key_get :: "string \<Rightarrow> bytes \<Rightarrow> crypto_t \<Rightarrow> crypto_t option"
  rvault_recovery_import :: "bytes \<Rightarrow> (bytes \<times> bytes) option"
  rvault_resolve_path :: "rvault_t \<Rightarrow> string \<Rightarrow> string option"
  rvault_resolve_vname :: "rvault_t \<Rightarrow> string \<Rightarrow> string option"

text \<open>
  Modelled from the spec: the cipher value zero of crypto.h is reserved for "none" and
  rejected.
\<close>

definition CIPHER_NONE :: nat where
  "CIPHER_NONE = 0"

text \<open>
  Modelled from the spec: the operations of crypto.c, which rvault.c calls and does not
  define.  \<open>create\<close> binds a state to a recognized cipher; \<open>gen_iv\<close> draws an IV from
  the random source; \<open>set_iv\<close> and \<open>set_key\<close> fail if the length is not the one the
  cipher requires; \<open>set_passphrase_key\<close> derives the key from the passphrase and the KDF
  parameters and installs it; \<open>get_key\<close> borrows the installed key.
\<close>

definition crypto_create :: "env \<Rightarrow> nat \<Rightarrow> crypto_t option" where
  "crypto_create env c =
     (if cipher_supported env c then Some \<lparr>c_cipher = c, c_iv = None, c_key = None\<rparr> else None)"

definition crypto_gen_iv :: "env \<Rightarrow> crypto_t \<Rightarrow> bytes option" where
  "crypto_gen_iv env cr = random_iv env (c_cipher cr)"

definition crypto_set_iv :: "env \<Rightarrow> crypto_t \<Rightarrow> bytes \<Rightarrow> crypto_t option" where
  "crypto_set_iv env cr iv =
     (if length iv = cipher_iv_len env (c_cipher cr) then Some (cr\<lparr>c_iv := Some iv\<rparr>) else None)"

definition crypto_set_key :: "env \<Rightarrow> crypto_t \<Rightarrow> bytes \<Rightarrow> crypto_t option" where
  "crypto_set_key env cr key =
     (if length key = cipher_key_len env (c_cipher cr) then Some (cr\<lparr>c_key := Some key\<rparr>) else None)"

definition crypto_set_passphrasekey :: "env \<Rightarrow> crypto_t \<Rightarrow> string \<Rightarrow> bytes \<Rightarrow> crypto_t option" where
  "crypto_set_passphrasekey env cr pwd kp =
     (case kdf_passphrase env pwd kp (cipher_key_len env (c_cipher cr)) of
        None \<Rightarrow> None
      | Some key \<Rightarrow> Some (cr\<lparr>c_key := Some key\<rparr>))"

definition crypto_get_key :: "crypto_t \<Rightarrow> bytes option" where
  "crypto_get_key cr = c_key cr"

text \<open>
  The tag array \<^verbatim>\<open>uint8_t hmac[HMAC_SHA3_256_BUFLEN]\<close> that the HMAC primitive fills:
  always exactly that many bytes.
\<close>

definition hmac_buf :: "bytes \<Rightarrow> bytes" where
  "hmac_buf t = take HMAC_SHA3_256_BUFLEN (t @ replicate HMAC_SHA3_256_BUFLEN 0)"

subsection \<open>The header HMAC\<close>

text \<open>
  \<^verbatim>\<open>rvault_hmac_compute\<close>: \<open>Inr None\<close> is the return value -1, \<open>Inr (Some tag)\<close> the
  return value 0 with the tag stored in the array.
\<close>

definition rvault_hmac_compute :: "env \<Rightarrow> crypto_t \<Rightarrow> bytes \<Rightarrow> error + bytes option" where
  "rvault_hmac_compute env cr hdr =
     (case crypto_get_key cr of
        None \<Rightarrow> Inl Assert_failed
      | Some key \<Rightarrow>
          and_then (RVAULT_HMAC_DATALEN (le_host env) hdr) (\<lambda>n.
          and_then (buf_read hdr 0 n) (\<lambda>data.
            Inr (map_option hmac_buf (hmac_sha3_256 env key data)))))"

text \<open>\<^verbatim>\<open>rvault_hmac_verify\<close>: \<open>Inr True\<close> is the return value 0, \<open>Inr False\<close> is -1.\<close>

definition rvault_hmac_verify :: "env \<Rightarrow> crypto_t \<Rightarrow> bytes \<Rightarrow> error + bool" where
  "rvault_hmac_verify env cr hdr =
     and_then (RVAULT_HDR_TO_HMAC (le_host env) hdr) (\<lambda>off.
     and_then (rvault_hmac_compute env cr hdr) (\<lambda>r.
       case r of
         None \<Rightarrow> Inr False
       | Some hmac_comp \<Rightarrow>
           and_then (buf_read hdr off HMAC_SHA3_256_BUFLEN) (\<lambda>hmac_rec.
             Inr (hmac_rec = hmac_comp))))"

subsection \<open>The file system\<close>

text \<open>
  The part of the file system that rvault.c touches: \<^verbatim>\<open>realpath\<close>, \<^verbatim>\<open>stat\<close>, the
  contents of regular files, the entries that \<^verbatim>\<open>readdir\<close> returns for a directory, and
  the number of bytes that the next \<^verbatim>\<open>fs_write\<close> manages to store.
\<close>

record fs_t =
  realpath :: "string \<Rightarrow> string option"
  is_dir :: "string \<Rightarrow> bool"
  files :: "string \<Rightarrow> bytes option"
  dir_entries :: "string \<Rightarrow> string list option"
  space_left :: nat

datatype oflags = O_RDONLY | O_CREAT_EXCL_WRONLY_SYNC

definition get_vault_path :: "fs_t \<Rightarrow> string \<Rightarrow> error + string" where
  "get_vault_path fs path =
     (case realpath fs path of
        None \<Rightarrow> Inl Not_found
      | Some rpath \<Rightarrow> if is_dir fs rpath then Inr rpath else Inl Not_a_directory)"

text \<open>
  \<^verbatim>\<open>open_metadata\<close>: the descriptor is the path of the opened file; the second
  component is the normalized base path.  With \<^verbatim>\<open>O_CREAT | O_EXCL\<close> the call fails
  on an existing file and creates an empty one otherwise.
\<close>

definition open_metadata ::
  "env \<Rightarrow> fs_t \<Rightarrow> string \<Rightarrow> oflags \<Rightarrow> (error + string \<times> string) \<times> fs_t" where
  "open_metadata env fs path fl =
     (case get_vault_path fs path of
        Inl e \<Rightarrow> (Inl e, fs)
      | Inr rpath \<Rightarrow>
          if \<not> can_alloc env then (Inl Alloc_failed, fs)
          else
            let fpath = rpath @ ''/'' @ RVAULT_META_FILE env in
            (case fl of
               O_RDONLY \<Rightarrow>
                 (case files fs fpath of
                    None \<Rightarrow> (Inl (Open_failed ENOENT), fs)
                  | Some _ \<Rightarrow> (Inr (fpath, rpath), fs))
             | O_CREAT_EXCL_WRONLY_SYNC \<Rightarrow>
                 (case files fs fpath of
                    Some _ \<Rightarrow> (Inl (Open_failed EEXIST), fs)
                  | None \<Rightarrow> (Inr (fpath, rpath), fs\<lparr>files := (files fs)(fpath \<mapsto> [])\<rparr>))))"

text \<open>
  \<^verbatim>\<open>fs_write\<close> on a descriptor positioned at the start of the file: returns the number
  of bytes written, which is short when the device runs out of space.
\<close>

definition fs_write :: "fs_t \<Rightarrow> string \<Rightarrow> bytes \<Rightarrow> nat \<times> fs_t" where
  "fs_write fs fd buf =
     (let n = min (length buf) (space_left fs)
      in (n, fs\<lparr>files := (files fs)(fd \<mapsto> take n buf), space_left := space_left fs - n\<rparr>))"

text \<open>\<^verbatim>\<open>open_metadata_mmap\<close>: the mapped contents and the normalized base path.\<close>

definition open_metadata_mmap :: "env \<Rightarrow> fs_t \<Rightarrow> string \<Rightarrow> error + bytes \<times> string" where
  "open_metadata_mmap env fs path =
     (case fst (open_metadata env fs path O_RDONLY) of
        Inl e \<Rightarrow> Inl e
      | Inr (fd, rpath) \<Rightarrow>
          (case files fs fd of
             None \<Rightarrow> Inl (Open_failed ENOENT)
           | Some contents \<Rightarrow>
               if length contents < RVAULT_HDR_LEN then Inl Metadata_corrupted
               else Inr (contents, rpath)))"

text \<open>
  A read of \<open>n\<close> bytes at the offset \<open>off\<close> of the mapping that \<^verbatim>\<open>safe_mmap(len, fd, 0)\<close>
  gives for a file of \<open>len\<close> bytes, without a check against \<open>len\<close>.  The mapping
  covers whole pages: the part of the last page that lies beyond the end of the file
  reads as zero, and there is no mapping beyond that page.
\<close>

definition mmap_read :: "env \<Rightarrow> bytes \<Rightarrow> nat \<Rightarrow> nat \<Rightarrow> error + bytes" where
  "mmap_read env contents off n =
     buf_read
       (contents @
        replicate ((page_size env - length contents mod page_size env) mod page_size env) 0)
       off n"

subsection \<open>Closing a vault\<close>

text \<open>What \<^verbatim>\<open>rvault_close\<close> does to the resources of the vault, in order.\<close>

datatype action =
    Close_file fileobj
  | Free_base_path string
  | Destroy_crypto crypto_t
  | Free_vault

text \<open>
  Modelled from the spec: \<^verbatim>\<open>fileobj_close\<close> of fileobj.c, which rvault.c calls and does
  not define.  Closing a file object removes it from the list of its vault, as the
  comment in \<^verbatim>\<open>rvault_close_files\<close> says too, and from the count.
\<close>

definition fileobj_close :: "rvault_t \<Rightarrow> fileobj \<Rightarrow> rvault_t" where
  "fileobj_close v fobj =
     v\<lparr>file_list := remove1 fobj (file_list v), file_count := file_count v - 1\<rparr>"

text \<open>The loop of \<^verbatim>\<open>rvault_close_files\<close>: the objects closed, in order, and the vault left.\<close>

function close_files_loop :: "rvault_t \<Rightarrow> fileobj list \<times> rvault_t" where
  "close_files_loop v =
     (case file_list v of
        [] \<Rightarrow> ([], v)
      | fobj # _ \<Rightarrow>
          (case close_files_loop (fileobj_close v fobj) of (cl, v') \<Rightarrow> (fobj # cl, v')))"
  by pat_completeness auto
termination
  by (relation "measure (\<lambda>v. length (file_list v))") (auto simp: fileobj_close_def)

definition rvault_close_files :: "rvault_t \<Rightarrow> error + fileobj list \<times> rvault_t" where
  "rvault_close_files v =
     (case close_files_loop v of (cl, v') \<Rightarrow>
        and_then (ASSERT (file_count v' = 0)) (\<lambda>_. Inr (cl, v')))"

text \<open>
  Modelled from the spec: \<^verbatim>\<open>crypto_destroy\<close> of crypto.c destroys the crypto state it is
  given.  A call on NULL counts as a fault here, the reading under which the guard in
  \<^verbatim>\<open>rvault_close\<close> is needed; \<^verbatim>\<open>free\<close> accepts NULL.
\<close>

definition crypto_destroy :: "crypto_t option \<Rightarrow> error + action list" where
  "crypto_destroy c = (case c of None \<Rightarrow> Inl Null_deref | Some cr \<Rightarrow> Inr [Destroy_crypto cr])"

definition free_path :: "string option \<Rightarrow> action list" where
  "free_path p = (case p of None \<Rightarrow> [] | Some s \<Rightarrow> [Free_base_path s])"

definition rvault_close :: "rvault_t \<Rightarrow> error + action list" where
  "rvault_close v =
     and_then (rvault_close_files v) (\<lambda>(cl, v').
     and_then (Inr (if base_path v' \<noteq> None then free_path (base_path v') else [])) (\<lambda>a2.
     and_then (if crypto v' \<noteq> None then crypto_destroy (crypto v') else Inr []) (\<lambda>a3.
       Inr (map Close_file cl @ a2 @ a3 @ [Free_vault]))))"

text \<open>The error exits that close the vault and return NULL.\<close>

definition close_fail :: "rvault_t \<Rightarrow> error \<Rightarrow> error + 'a" where
  "close_fail v e = and_then (rvault_close v) (\<lambda>_. Inl e)"

subsection \<open>Opening a vault\<close>

definition rvault_open_hdr :: "env \<Rightarrow> bytes \<Rightarrow> string option \<Rightarrow> error + rvault_t" where
  "rvault_open_hdr env hdr server =
     and_then (hdr_ver hdr) (\<lambda>ver.
     if ver \<noteq> RVAULT_ABI_VER env then Inl Incompatible_version
     else
     and_then (RVAULT_FILE_LEN (le_host env) hdr) (\<lambda>flen.
     if flen \<noteq> length hdr then Inl Metadata_corrupted
     else
     and_then (hdr_iv_len (le_host env) hdr) (\<lambda>ivl.
     if \<not> can_alloc env then Inl Alloc_failed
     else
     and_then (hdr_cipher hdr) (\<lambda>c.
     and_then (hdr_uid hdr) (\<lambda>u.
       let vault = \<lparr>base_path = None, uid = u, cipher = unat c, crypto = None,
                    server_url = server, file_list = [], file_count = 0\<rparr>
       in (case crypto_create env (cipher vault) of
             None \<Rightarrow> close_fail vault Crypto_create_failed
           | Some cr \<Rightarrow>
               and_then (buf_read hdr RVAULT_HDR_TO_IV (unat (be16toh (le_host env) ivl))) (\<lambda>iv.
                 case crypto_set_iv env cr iv of
                   None \<Rightarrow> close_fail (vault\<lparr>crypto := Some cr\<rparr>) Set_iv_failed
                 | Some cr' \<Rightarrow> Inr (vault\<lparr>crypto := Some cr'\<rparr>))))))))"

text \<open>
  The key stage of \<^verbatim>\<open>rvault_open\<close>: the passphrase key from \<open>hdr->kp_len\<close> bytes at
  \<^verbatim>\<open>RVAULT_HDR_TO_KP\<close>, then the key of the server unless the vault is NOAUTH.  The
  length is the field as it stands in memory, not the one that \<^verbatim>\<open>rvault_open_hdr\<close> has
  checked through \<^verbatim>\<open>be16toh\<close>, and the bytes are read from the mapping of the file with
  no check against the length of the file.
\<close>

definition rvault_open_key ::
  "env \<Rightarrow> bytes \<Rightarrow> rvault_t \<Rightarrow> string option \<Rightarrow> string \<Rightarrow> error + crypto_t" where
  "rvault_open_key env hdr vault server pwd =
     and_then (or_fail Null_deref (crypto vault)) (\<lambda>cr.
     and_then (hdr_kp_len (le_host env) hdr) (\<lambda>kpl.
     and_then (RVAULT_HDR_TO_KP (le_host env) hdr) (\<lambda>off.
     and_then (mmap_read env hdr off (unat kpl)) (\<lambda>kp.
     and_then (or_fail Passphrase_key_failed (crypto_set_passphrasekey env cr pwd kp)) (\<lambda>cr.
     and_then (hdr_flags hdr) (\<lambda>fl.
       if fl AND RVAULT_FLAG_NOAUTH = 0 then
         (case server of
            None \<Rightarrow> Inl No_server_url
          | Some url \<Rightarrow> or_fail Key_get_failed (rvault_key_get env url (uid vault) cr))
       else Inr cr))))))"

definition rvault_open_verify :: "env \<Rightarrow> bytes \<Rightarrow> crypto_t \<Rightarrow> error + unit" where
  "rvault_open_verify env hdr cr =
     and_then (rvault_hmac_verify env cr hdr) (\<lambda>ok.
       if ok then Inr () else Inl Verification_failed)"

definition rvault_open :: "env \<Rightarrow> fs_t \<Rightarrow> string \<Rightarrow> string option \<Rightarrow> string \<Rightarrow> error + rvault_t" where
  "rvault_open env fs path server pwd =
     and_then (open_metadata_mmap env fs path) (\<lambda>(hdr, bp).
     and_then (rvault_open_hdr env hdr server) (\<lambda>vault0.
       let vault = vault0\<lparr>base_path := Some bp\<rparr>
       in (case rvault_open_key env hdr vault server pwd of
             Inl e \<Rightarrow> close_fail vault e
           | Inr cr \<Rightarrow>
               (case rvault_open_verify env hdr cr of
                  Inl e \<Rightarrow> close_fail (vault\<lparr>crypto := Some cr\<rparr>) e
                | Inr _ \<Rightarrow> Inr (vault\<lparr>crypto := Some cr\<rparr>)))))"

text \<open>
  \<^verbatim>\<open>rvault_open_ekey\<close>: the recovery file is parsed into its METADATA and EKEY
  sections by \<^verbatim>\<open>rvault_recovery_import\<close>.
\<close>

definition rvault_open_ekey :: "env \<Rightarrow> fs_t \<Rightarrow> string \<Rightarrow> string \<Rightarrow> error + rvault_t" where
  "rvault_open_ekey env fs path recovery =
     and_then (or_fail (Open_failed ENOENT) (files fs recovery)) (\<lambda>blob.
     and_then (or_fail Recovery_failed (rvault_recovery_import env blob)) (\<lambda>(hdr, key).
     and_then (get_vault_path fs path) (\<lambda>bp.
     and_then (rvault_open_hdr env hdr None) (\<lambda>vault0.
       let vault = vault0\<lparr>base_path := Some bp\<rparr>
       in and_then (or_fail Null_deref (crypto vault)) (\<lambda>cr.
            case crypto_set_key env cr key of
              None \<Rightarrow> close_fail vault Set_key_failed
            | Some cr' \<Rightarrow> Inr (vault\<lparr>crypto := Some cr'\<rparr>))))))"

subsection \<open>Initializing a vault\<close>

text \<open>The cipher: by name, or the default.\<close>

definition init_cipher :: "env \<Rightarrow> string option \<Rightarrow> error + nat" where
  "init_cipher env cipher_str =
     (case cipher_str of
        Some s \<Rightarrow>
          if crypto_cipher_id env s = CIPHER_NONE then Inl Invalid_cipher
          else Inr (crypto_cipher_id env s)
      | None \<Rightarrow> Inr (CRYPTO_CIPHER_PRIMARY env))"

text \<open>
  The header values and the copies of the IV and of the KDF parameters: \<open>kp_len\<close> is
  stored as it is, \<open>iv_len\<close> through \<^verbatim>\<open>htobe16\<close>.  The size arguments are narrowed to
  the 16-bit fields.
\<close>

definition init_hdr_fields ::
  "env \<Rightarrow> bytes \<Rightarrow> nat \<Rightarrow> 32 word \<Rightarrow> bytes \<Rightarrow> bytes \<Rightarrow> error + bytes" where
  "init_hdr_fields env hdr0 ciph flags iv kp =
     and_then (buf_write hdr0 OFF_VER [RVAULT_ABI_VER env]) (\<lambda>hdr.
     and_then (buf_write hdr OFF_CIPHER [of_nat ciph]) (\<lambda>hdr.
     and_then (buf_write hdr OFF_FLAGS [ucast flags]) (\<lambda>hdr.
     and_then (buf_write hdr OFF_KP_LEN (u16_bytes (le_host env) (of_nat (length kp)))) (\<lambda>hdr.
     and_then (buf_write hdr OFF_IV_LEN
                 (u16_bytes (le_host env) (htobe16 (le_host env) (of_nat (length iv))))) (\<lambda>hdr.
     and_then (buf_write hdr RVAULT_HDR_TO_IV iv) (\<lambda>hdr.
     and_then (RVAULT_HDR_TO_KP (le_host env) hdr) (\<lambda>off.
       buf_write hdr off kp)))))))"

definition init_uid :: "env \<Rightarrow> string \<Rightarrow> error + bytes" where
  "init_uid env uid_str =
     (case hex_read_arbitrary_buf env uid_str of
        None \<Rightarrow> Inl Invalid_uid
      | Some u \<Rightarrow> if length u \<noteq> UID_LEN then Inl Invalid_uid else Inr u)"

text \<open>Registration with the server, unless the vault is NOAUTH.\<close>

definition init_register ::
  "env \<Rightarrow> string option \<Rightarrow> bytes \<Rightarrow> crypto_t \<Rightarrow> 32 word \<Rightarrow> error + crypto_t" where
  "init_register env server u cr flags =
     (if flags AND ucast RVAULT_FLAG_NOAUTH = 0 then
        (case server of
           None \<Rightarrow> Inl No_server_url
         | Some url \<Rightarrow> or_fail Key_set_failed (rvault_key_set env url u cr))
      else Inr cr)"

text \<open>The HMAC of the record, copied to \<^verbatim>\<open>RVAULT_HDR_TO_HMAC\<close>.\<close>

definition init_hmac :: "env \<Rightarrow> crypto_t \<Rightarrow> bytes \<Rightarrow> error + bytes" where
  "init_hmac env cr hdr =
     and_then (rvault_hmac_compute env cr hdr) (\<lambda>r.
     and_then (or_fail Hmac_failed r) (\<lambda>hmac.
     and_then (RVAULT_HDR_TO_HMAC (le_host env) hdr) (\<lambda>off.
       buf_write hdr off hmac)))"

text \<open>
  The first part of \<^verbatim>\<open>rvault_init\<close>, up to the finished record in memory: nothing in
  it touches the file system.
\<close>

definition init_record ::
  "env \<Rightarrow> string option \<Rightarrow> string \<Rightarrow> string \<Rightarrow> string option \<Rightarrow> 32 word \<Rightarrow> error + bytes" where
  "init_record env server pwd uid_str cipher_str flags =
     and_then (init_cipher env cipher_str) (\<lambda>ciph.
     and_then (or_fail Crypto_create_failed (crypto_create env ciph)) (\<lambda>cr.
     and_then (or_fail Gen_iv_failed (crypto_gen_iv env cr)) (\<lambda>iv.
     and_then (or_fail Set_iv_failed (crypto_set_iv env cr iv)) (\<lambda>cr.
     and_then (or_fail Kdf_params_failed (kdf_create_params env)) (\<lambda>kp.
     and_then (ASSERT (length kp \<le> UINT8_MAX)) (\<lambda>_.
     and_then (ASSERT (length iv \<le> UINT16_MAX)) (\<lambda>_.
     and_then (or_fail Passphrase_key_failed (crypto_set_passphrasekey env cr pwd kp)) (\<lambda>cr.
     and_then (calloc (can_alloc env)
                 (RVAULT_HDR_LEN + length iv + length kp + HMAC_SHA3_256_BUFLEN)) (\<lambda>hdr.
     and_then (ASSERT (ciph \<le> UINT8_MAX)) (\<lambda>_.
     and_then (ASSERT (unat flags \<le> UINT8_MAX)) (\<lambda>_.
     and_then (init_hdr_fields env hdr ciph flags iv kp) (\<lambda>hdr.
     and_then (init_uid env uid_str) (\<lambda>u.
     and_then (buf_write hdr OFF_UID u) (\<lambda>hdr.
     and_then (init_register env server u cr flags) (\<lambda>cr.
       init_hmac env cr hdr)))))))))))))))"

text \<open>
  \<^verbatim>\<open>rvault_init\<close>: the record, then the metadata file.  The result is the return value
  (\<open>Inr ()\<close> for 0, \<open>Inl e\<close> for -1 at the failure \<open>e\<close>) and the file system left behind.
\<close>

definition rvault_init ::
  "env \<Rightarrow> fs_t \<Rightarrow> string \<Rightarrow> string option \<Rightarrow> string \<Rightarrow> string \<Rightarrow> string option \<Rightarrow> 32 word
     \<Rightarrow> (error + unit) \<times> fs_t" where
  "rvault_init env fs path server pwd uid_str cipher_str flags =
     (case init_record env server pwd uid_str cipher_str flags of
        Inl e \<Rightarrow> (Inl e, fs)
      | Inr hdr \<Rightarrow>
          (case open_metadata env fs path O_CREAT_EXCL_WRONLY_SYNC of
             (Inl e, fs') \<Rightarrow> (Inl e, fs')
           | (Inr (fd, _), fs') \<Rightarrow>
               (case fs_write fs' fd hdr of
                  (n, fs'') \<Rightarrow>
                    if n \<noteq> length hdr then (Inl Write_failed, fs'') else (Inr (), fs''))))"

subsection \<open>Iterating a directory\<close>

text \<open>\<^verbatim>\<open>strncmp(a, b, n) == 0\<close> on C strings.\<close>

fun strncmp_eq :: "string \<Rightarrow> string \<Rightarrow> nat \<Rightarrow> bool" where
  "strncmp_eq a b 0 = True"
| "strncmp_eq [] [] (Suc n) = True"
| "strncmp_eq (x # a) (y # b) (Suc n) = (x = y \<and> strncmp_eq a b n)"
| "strncmp_eq a b (Suc n) = False"

definition first_is_dot :: "string \<Rightarrow> bool" where
  "first_is_dot vname = (case vname of [] \<Rightarrow> False | c # _ \<Rightarrow> c = CHR ''.'')"

text \<open>
  The \<^verbatim>\<open>readdir\<close> loop.  The callback \<open>iterfunc\<close> takes its argument \<open>arg\<close>, the name and
  the \<open>d_name\<close> of the directory entry, and returns the argument updated.  The result is
  the return value of \<^verbatim>\<open>rvault_iter_dir\<close> and the argument of the callback at the end.
\<close>

fun iter_entries ::
  "env \<Rightarrow> rvault_t \<Rightarrow> ('s \<Rightarrow> string \<Rightarrow> string \<Rightarrow> 's) \<Rightarrow> string list \<Rightarrow> 's \<Rightarrow> int \<times> 's" where
  "iter_entries env vault iterfunc [] arg = (0, arg)"
| "iter_entries env vault iterfunc (vname # rest) arg =
     (if vname = ''.'' \<or> vname = ''..''
      then iter_entries env vault iterfunc rest (iterfunc arg vname vname)
      else if first_is_dot vname then iter_entries env vault iterfunc rest arg
      else if strncmp_eq vname (RVAULT_META_PREF env) (RVAULT_META_PREFLEN env)
      then iter_entries env vault iterfunc rest arg
      else (case rvault_resolve_vname env vault vname of
              None \<Rightarrow> (- 1, arg)
            | Some name \<Rightarrow> iter_entries env vault iterfunc rest (iterfunc arg name vname)))"

definition rvault_iter_dir ::
  "env \<Rightarrow> fs_t \<Rightarrow> rvault_t \<Rightarrow> string \<Rightarrow> 's \<Rightarrow> ('s \<Rightarrow> string \<Rightarrow> string \<Rightarrow> 's) \<Rightarrow> int \<times> 's" where
  "rvault_iter_dir env fs vault path arg iterfunc =
     (case rvault_resolve_path env vault path of
        None \<Rightarrow> (- 1, arg)
      | Some vpath \<Rightarrow>
          (case dir_entries fs vpath of
             None \<Rightarrow> (- 1, arg)
           | Some ents \<Rightarrow> iter_entries env vault iterfunc ents arg))"

subsection \<open>Observing the callback of the directory iteration\<close>

text \<open>
  A callback that records its invocations: the name it is given and the \<open>d_name\<close> of the
  directory entry it is given.
\<close>

definition record_call ::
  "(string \<times> string) list \<Rightarrow> string \<Rightarrow> string \<Rightarrow> (string \<times> string) list" where
  "record_call log name d_name = log @ [(name, d_name)]"

text \<open>
  The stored entries that the iteration is to surface: \<open>.\<close> and \<open>..\<close>, and the entries
  that neither begin with a dot nor with the metadata prefix.  The name that goes with
  a surfaced entry: itself for \<open>.\<close> and \<open>..\<close>, the resolved logical name otherwise.
\<close>

definition shown :: "env \<Rightarrow> string \<Rightarrow> bool" where
  "shown env vname \<longleftrightarrow>
     vname = ''.'' \<or> vname = ''..'' \<or>
     (\<not> first_is_dot vname \<and>
      \<not> strncmp_eq vname (RVAULT_META_PREF env) (RVAULT_META_PREFLEN env))"

definition name_for :: "env \<Rightarrow> rvault_t \<Rightarrow> string \<Rightarrow> string option" where
  "name_for env vault vname =
     (if vname = ''.'' \<or> vname = ''..'' then Some vname
      else rvault_resolve_vname env vault vname)"

subsection \<open>A small concrete environment\<close>

text \<open>
  One cipher (number 1) with IVs and keys of two bytes, a one-byte KDF parameter blob,
  a key derivation that depends on the length of the passphrase only, a tag made of
  the key, the length of the data and the sum of its bytes, and pages of 4096 bytes.
  The argument is the byte order of the host.
\<close>

definition demo_env :: "bool \<Rightarrow> env" where
  "demo_env le =
     \<lparr>le_host = le, page_size = 4096, can_alloc = True, RVAULT_ABI_VER = 1, CRYPTO_CIPHER_PRIMARY = 1,
      RVAULT_META_FILE = ''rvault.metadata'', RVAULT_META_PREF = ''rvault.'',
      RVAULT_META_PREFLEN = 7,
      crypto_cipher_id = (\<lambda>s. if s = ''toy'' then 1 else 0),
      cipher_supported = (\<lambda>c. c = 1),
      cipher_iv_len = (\<lambda>c. 2),
      cipher_key_len = (\<lambda>c. 2),
      random_iv = (\<lambda>c. Some [7, 9]),
      kdf_create_params = Some [5],
      kdf_passphrase = (\<lambda>pwd kp n. Some (replicate n (of_nat (length pwd)))),
      hmac_sha3_256 = (\<lambda>key data. Some (key @ [of_nat (length data), sum_list data])),
      hex_read_arbitrary_buf = (\<lambda>s. if s = ''00'' then Some (replicate 16 0) else None),
      rvault_key_set = (\<lambda>url u cr. Some cr),
      rvault_key_get = (\<lambda>url u cr. Some cr),
      rvault_recovery_import =
        (\<lambda>blob. Some (take (length blob - 2) blob, drop (length blob - 2) blob)),
      rvault_resolve_path = (\<lambda>v p. Some p),
      rvault_resolve_vname = (\<lambda>v n. if n = ''bad'' then None else Some (CHR ''x'' # n))\<rparr>"

text \<open>
  A file system with the empty directory \<open>/v\<close> for a new vault and two directories of
  stored entries; the argument is the space left on the device.
\<close>

definition demo_fs :: "nat \<Rightarrow> fs_t" where
  "demo_fs space =
     \<lparr>realpath = (\<lambda>p. if p = ''/v'' then Some ''/v'' else None),
      is_dir = (\<lambda>p. p = ''/v''),
      files = Map.empty,
      dir_entries =
        (\<lambda>p. if p = ''/d'' then Some [''.'', ''..'', ''rvault.metadata'', ''.tmp'', ''a'', ''b'']
             else if p = ''/e'' then Some [''.'', ''a'', ''bad'', ''b'']
             else None),
      space_left = space\<rparr>"

definition demo_vault :: rvault_t where
  "demo_vault =
     \<lparr>base_path = Some ''/v'', uid = replicate 16 0, cipher = 1,
      crypto = Some \<lparr>c_cipher = 1, c_iv = Some [7, 9], c_key = Some [2, 2]\<rparr>,
      server_url = None, file_list = [], file_count = 0\<rparr>"

text \<open>A vault with two open file objects and neither base path nor crypto state.\<close>

definition demo_partial_vault :: rvault_t where
  "demo_partial_vault =
     \<lparr>base_path = None, uid = [], cipher = 1, crypto = None, server_url = None,
      file_list = [3, 5], file_count = 2\<rparr>"

text \<open>The file system of the small environment with a metadata file in \<open>/v\<close>.\<close>

definition demo_fs_with_vault :: fs_t where
  "demo_fs_with_vault = (demo_fs 1000)\<lparr>files := [''/v/rvault.metadata'' \<mapsto> [1, 2, 3]]\<rparr>"

text \<open>A step that returned a value.\<close>

definition succeeded :: "error + 'a \<Rightarrow> bool" where
  "succeeded r = (case r of Inl _ \<Rightarrow> False | Inr _ \<Rightarrow> True)"

text \<open>
  The file system of the small environment on a little-endian host, with a metadata
  file that holds the record as \<^verbatim>\<open>rvault_init\<close> has it in memory before the HMAC step:
  header, IV, KDF parameters and 32 bytes still zero.
\<close>

definition demo_fs_le_record :: fs_t where
  "demo_fs_le_record =
     (demo_fs 1000)\<lparr>files :=
        [''/v/rvault.metadata'' \<mapsto>
           projr (init_hdr_fields (demo_env True) (replicate 99 0) 1 1 [7, 9] [5])]\<rparr>"

text \<open>
  The record that \<^verbatim>\<open>rvault_init\<close> builds in the small environment on a big-endian
  host, and a file system with two recovery files: the record followed by an effective
  key, and the same with the tag of the record overwritten.
\<close>

definition demo_record :: bytes where
  "demo_record = projr (init_record (demo_env False) None ''pw'' ''00'' None 1)"

definition demo_fs_recovery :: fs_t where
  "demo_fs_recovery =
     (demo_fs 0)\<lparr>files :=
        [''/r'' \<mapsto> demo_record @ [4, 4],
         ''/r2'' \<mapsto> take 67 demo_record @ replicate 32 255 @ [4, 4]]\<rparr>"

subsection \<open>The metadata record, byte by byte\<close>

text \<open>
  The description of the metadata file speaks of the bytes of the record: the version
  byte, the cipher byte, the two lengths as 16-bit big-endian numbers, the UID, the
  flags, then after the padded header the IV, the KDF parameters and the tag.  The
  following definitions read these off a byte list directly; they use neither the
  macros of storage.h nor any function of rvault.c.
\<close>

definition be16_at :: "bytes \<Rightarrow> nat \<Rightarrow> nat" where
  "be16_at h off = 256 * unat (h ! off) + unat (h ! (off + 1))"

definition rec_cipher :: "bytes \<Rightarrow> nat" where
  "rec_cipher h = unat (h ! OFF_CIPHER)"

definition rec_iv_len :: "bytes \<Rightarrow> nat" where
  "rec_iv_len h = be16_at h OFF_IV_LEN"

definition rec_kp_len :: "bytes \<Rightarrow> nat" where
  "rec_kp_len h = be16_at h OFF_KP_LEN"

definition rec_uid :: "bytes \<Rightarrow> bytes" where
  "rec_uid h = take UID_LEN (drop OFF_UID h)"

definition rec_noauth :: "bytes \<Rightarrow> bool" where
  "rec_noauth h \<longleftrightarrow> h ! OFF_FLAGS AND RVAULT_FLAG_NOAUTH \<noteq> 0"

definition rec_iv :: "bytes \<Rightarrow> bytes" where
  "rec_iv h = take (rec_iv_len h) (drop RVAULT_HDR_LEN h)"

text \<open>The part of the record that the HMAC covers, and the tag stored after it.\<close>

definition rec_data_len :: "bytes \<Rightarrow> nat" where
  "rec_data_len h = RVAULT_HDR_LEN + rec_iv_len h + rec_kp_len h"

definition rec_data :: "bytes \<Rightarrow> bytes" where
  "rec_data h = take (rec_data_len h) h"

definition rec_tag :: "bytes \<Rightarrow> bytes" where
  "rec_tag h = drop (rec_data_len h) h"

text \<open>The metadata file of the vault directory, if the path resolves to a directory.\<close>

definition meta_file :: "env \<Rightarrow> fs_t \<Rightarrow> string \<Rightarrow> bytes option" where
  "meta_file env fs path =
     (case realpath fs path of
        None \<Rightarrow> None
      | Some rp \<Rightarrow> if is_dir fs rp then files fs (rp @ ''/'' @ RVAULT_META_FILE env) else None)"

text \<open>
  The first four conditions that the description of open lists: the file is at least
  one header long, the version is the ABI version, the cipher is recognized, and the
  length computed from the two length fields is the size of the file.
\<close>

definition rec_wellformed :: "env \<Rightarrow> bytes \<Rightarrow> bool" where
  "rec_wellformed env h \<longleftrightarrow>
     RVAULT_HDR_LEN \<le> length h \<and>
     h ! OFF_VER = RVAULT_ABI_VER env \<and>
     cipher_supported env (rec_cipher h) \<and>
     rec_data_len h + HMAC_SHA3_256_BUFLEN = length h"

text \<open>The IV length of the record is the one that the cipher of the record requires.\<close>

definition rec_iv_fits :: "env \<Rightarrow> bytes \<Rightarrow> bool" where
  "rec_iv_fits env h \<longleftrightarrow> rec_iv_len h = cipher_iv_len env (rec_cipher h)"

text \<open>
  The bytes that open hands to the key derivation as KDF parameters: as many as the
  field \<open>kp_len\<close> says when it is read in the byte order of the host, taken at the end of
  the IV from the mapping of the file (the file followed by zero bytes up to the end of
  its last page).  There are none if they do not lie within the mapping.  On a
  big-endian host these are the KDF parameters of the record.
\<close>

definition host16_at :: "bool \<Rightarrow> bytes \<Rightarrow> nat \<Rightarrow> nat" where
  "host16_at le h off =
     (if le then unat (h ! off) + 256 * unat (h ! (off + 1)) else be16_at h off)"

definition rec_kdf_input :: "env \<Rightarrow> bytes \<Rightarrow> bytes option" where
  "rec_kdf_input env h =
     (let n = host16_at (le_host env) h OFF_KP_LEN;
          off = RVAULT_HDR_LEN + rec_iv_len h;
          m = h @ replicate ((page_size env - length h mod page_size env) mod page_size env) 0
      in if off + n \<le> length m then Some (take n (drop off m)) else None)"

text \<open>
  The effective key of a record for a passphrase: the key derived from the passphrase
  and the KDF input and, unless the record is NOAUTH, the key that the server then gives
  for the UID of the record.  There is none if the derivation fails, if a server is
  needed and no URL is given, or if the fetch fails.
\<close>

definition effective_key :: "env \<Rightarrow> bytes \<Rightarrow> string option \<Rightarrow> string \<Rightarrow> bytes option" where
  "effective_key env h server pwd =
     (case rec_kdf_input env h of
        None \<Rightarrow> None
      | Some kp \<Rightarrow>
          (case kdf_passphrase env pwd kp (cipher_key_len env (rec_cipher h)) of
             None \<Rightarrow> None
           | Some k \<Rightarrow>
               if rec_noauth h then Some k
               else
                 (case server of
                    None \<Rightarrow> None
                  | Some url \<Rightarrow>
                      (case rvault_key_get env url (rec_uid h)
                              \<lparr>c_cipher = rec_cipher h, c_iv = Some (rec_iv h), c_key = Some k\<rparr> of
                         None \<Rightarrow> None
                       | Some cr \<Rightarrow> c_key cr))))"

text \<open>
  The stored tag is the HMAC, under the key \<open>k\<close>, of the header, the IV and the KDF
  parameters.
\<close>

definition tag_verifies :: "env \<Rightarrow> bytes \<Rightarrow> bytes \<Rightarrow> bool" where
  "tag_verifies env k h \<longleftrightarrow>
     (case hmac_sha3_256 env k (rec_data h) of
        None \<Rightarrow> False
      | Some t \<Rightarrow> hmac_buf t = rec_tag h)"

text \<open>
  The five conditions that the description of open lists, the fifth being that the
  record has an effective key for the passphrase and that the tag verifies under it.
\<close>

definition listed_conditions :: "env \<Rightarrow> fs_t \<Rightarrow> string \<Rightarrow> string option \<Rightarrow> string \<Rightarrow> bool" where
  "listed_conditions env fs path server pwd =
     (case meta_file env fs path of
        None \<Rightarrow> False
      | Some h \<Rightarrow>
          rec_wellformed env h \<and>
          (case effective_key env h server pwd of
             None \<Rightarrow> False
           | Some k \<Rightarrow> tag_verifies env k h))"

text \<open>
  The conditions under which \<^verbatim>\<open>rvault_open\<close> returns a vault: the listed ones, the IV
  length that the cipher requires, and memory for the path of the file and for the vault
  object.
\<close>

definition open_conditions :: "env \<Rightarrow> fs_t \<Rightarrow> string \<Rightarrow> string option \<Rightarrow> string \<Rightarrow> bool" where
  "open_conditions env fs path server pwd \<longleftrightarrow>
     listed_conditions env fs path server pwd \<and>
     (case meta_file env fs path of None \<Rightarrow> False | Some h \<Rightarrow> rec_iv_fits env h) \<and>
     can_alloc env"

text \<open>
  Vaults of the small environment: the one that \<^verbatim>\<open>rvault_init\<close> creates on a big-endian
  host; one whose header records an IV of three bytes, with a tag that verifies under
  the key of the passphrase \<open>pw\<close>; and the first one with its tag overwritten, with a
  byte of its IV changed, with its version byte changed and with its \<open>kp_len\<close> changed.
\<close>

definition demo_fs_good :: fs_t where
  "demo_fs_good = (demo_fs 1000)\<lparr>files := [''/v/rvault.metadata'' \<mapsto> demo_record]\<rparr>"

definition demo_fs_bad_iv :: fs_t where
  "demo_fs_bad_iv =
     (demo_fs 1000)\<lparr>files :=
        [''/v/rvault.metadata'' \<mapsto>
           [1, 1, 0, 3, 0, 1] @ replicate 16 0 @ [1] @ replicate 41 0 @
           [7, 9, 9] @ [5] @ [2, 2, 68, 37] @ replicate 28 0]\<rparr>"

definition demo_fs_tampered :: fs_t where
  "demo_fs_tampered =
     (demo_fs 1000)\<lparr>files :=
        [''/v/rvault.metadata'' \<mapsto> take 67 demo_record @ replicate 32 255]\<rparr>"

definition demo_fs_tampered_iv :: fs_t where
  "demo_fs_tampered_iv =
     (demo_fs 1000)\<lparr>files := [''/v/rvault.metadata'' \<mapsto> demo_record[64 := 8]]\<rparr>"

definition demo_fs_tampered_ver :: fs_t where
  "demo_fs_tampered_ver =
     (demo_fs 1000)\<lparr>files := [''/v/rvault.metadata'' \<mapsto> demo_record[0 := 2]]\<rparr>"

definition demo_fs_tampered_len :: fs_t where
  "demo_fs_tampered_len =
     (demo_fs 1000)\<lparr>files := [''/v/rvault.metadata'' \<mapsto> demo_record[5 := 2]]\<rparr>"

subsection \<open>The steps of init before the metadata file\<close>

text \<open>
  The description of init has it build the whole record before it creates the file.
  The part of that record that the HMAC covers, as the layout of the metadata file
  gives it: version, cipher, the two lengths in big-endian order, the UID, the flags,
  the padding of the header, the IV and the KDF parameters.
\<close>

definition init_data :: "env \<Rightarrow> nat \<Rightarrow> 32 word \<Rightarrow> bytes \<Rightarrow> bytes \<Rightarrow> bytes \<Rightarrow> bytes" where
  "init_data env ciph flags iv kp u =
     [RVAULT_ABI_VER env, of_nat ciph] @ be16_bytes (length iv) @ be16_bytes (length kp) @
     u @ [ucast flags] @ replicate (RVAULT_HDR_LEN - SIZEOF_HDR) 0 @ iv @ kp"

text \<open>
  The key under which init computes the HMAC: the key derived from the passphrase and
  the KDF parameters and, unless the vault is NOAUTH, the key that is installed once the
  registration with the server has succeeded.
\<close>

definition init_key ::
  "env \<Rightarrow> string option \<Rightarrow> string \<Rightarrow> 32 word \<Rightarrow> nat \<Rightarrow> bytes \<Rightarrow> bytes \<Rightarrow> bytes \<Rightarrow> bytes option" where
  "init_key env server pwd flags ciph iv kp u =
     (case kdf_passphrase env pwd kp (cipher_key_len env ciph) of
        None \<Rightarrow> None
      | Some k \<Rightarrow>
          if flags AND ucast RVAULT_FLAG_NOAUTH \<noteq> 0 then Some k
          else
            (case server of
               None \<Rightarrow> None
             | Some url \<Rightarrow>
                 (case rvault_key_set env url u
                         \<lparr>c_cipher = ciph, c_iv = Some iv, c_key = Some k\<rparr> of
                    None \<Rightarrow> None
                  | Some cr \<Rightarrow> c_key cr)))"

text \<open>
  All steps of init before the metadata file is opened succeed: cipher, IV, KDF
  parameters, key derivation, allocation, UID, registration and HMAC, with the values
  within the ranges that init asserts.  The host is big-endian or the KDF parameters are
  empty: otherwise the HMAC step reads beyond the record.
\<close>

definition init_steps_succeed ::
  "env \<Rightarrow> string option \<Rightarrow> string \<Rightarrow> string \<Rightarrow> string option \<Rightarrow> 32 word \<Rightarrow> bool" where
  "init_steps_succeed env server pwd uid_str cipher_str flags \<longleftrightarrow>
     (let ciph = (case cipher_str of None \<Rightarrow> CRYPTO_CIPHER_PRIMARY env
                  | Some s \<Rightarrow> crypto_cipher_id env s)
      in (cipher_str \<noteq> None \<longrightarrow> ciph \<noteq> CIPHER_NONE) \<and> cipher_supported env ciph \<and>
         ciph \<le> UINT8_MAX \<and> unat flags \<le> UINT8_MAX \<and> can_alloc env \<and>
         (case (random_iv env ciph, kdf_create_params env, hex_read_arbitrary_buf env uid_str) of
            (Some iv, Some kp, Some u) \<Rightarrow>
              length iv = cipher_iv_len env ciph \<and> length iv \<le> UINT16_MAX \<and>
              length kp \<le> UINT8_MAX \<and> (le_host env \<longrightarrow> kp = []) \<and> length u = UID_LEN \<and>
              (case init_key env server pwd flags ciph iv kp u of
                 None \<Rightarrow> False
               | Some k \<Rightarrow> hmac_sha3_256 env k (init_data env ciph flags iv kp u) \<noteq> None)
          | _ \<Rightarrow> False))"

section \<open>Properties\<close>

subsection \<open>Basic facts about the sequencing of steps\<close>

lemma and_then_Inr_iff: "and_then r f = Inr y \<longleftrightarrow> (\<exists>x. r = Inr x \<and> f x = Inr y)"
  by (cases r) (simp_all add: and_then_def)

lemma and_then_Inl_iff:
  "and_then r f = Inl e \<longleftrightarrow> r = Inl e \<or> (\<exists>x. r = Inr x \<and> f x = Inl e)"
  by (cases r) (simp_all add: and_then_def)

lemma and_then_simps [simp]:
  "and_then (Inl e) f = Inl e" "and_then (Inr x) f = f x"
  by (simp_all add: and_then_def)

lemma or_fail_simps [simp]:
  "or_fail e None = Inl e" "or_fail e (Some x) = Inr x"
  by (simp_all add: or_fail_def)

text \<open>
  Evaluation of a chain of steps goes from the first step on: the continuation is
  looked at only once the step before it has a value.
\<close>

lemma and_then_weak_cong [cong]: "r = r' \<Longrightarrow> and_then r f = and_then r' f"
  by simp

lemma replicate_numeral: "replicate (numeral k) x = x # replicate (pred_numeral k) x"
  by (simp add: numeral_eq_Suc)

text \<open>A read that stays within the file does not look at the rest of the page.\<close>

lemma mmap_read_eval:
  "mmap_read env contents off n =
     (if off + n \<le> length contents then Inr (take n (drop off contents))
      else buf_read
             (contents @
              replicate ((page_size env - length contents mod page_size env) mod page_size env) 0)
             off n)"
  by (simp add: mmap_read_def buf_read_def)

lemmas eval_defs =
  init_record_def init_cipher_def crypto_create_def crypto_gen_iv_def crypto_set_iv_def
  crypto_set_key_def crypto_set_passphrasekey_def crypto_get_key_def ASSERT_def calloc_def
  init_hdr_fields_def init_uid_def init_register_def init_hmac_def rvault_hmac_compute_def
  rvault_hmac_verify_def hmac_buf_def buf_write_def buf_read_def buf_read8_def buf_read16_def
  RVAULT_HDR_TO_IV_def RVAULT_HDR_TO_KP_def RVAULT_HDR_TO_HMAC_def RVAULT_HMAC_DATALEN_def
  RVAULT_FILE_LEN_def RVAULT_HDR_LEN_def STORAGE_ALIGN_def STORAGE_ALIGNMENT_def roundup2_def
  SIZEOF_HDR_def HMAC_SHA3_256_BUFLEN_def RVAULT_FLAG_NOAUTH_def UINT8_MAX_def UINT16_MAX_def
  OFF_VER_def OFF_CIPHER_def OFF_IV_LEN_def OFF_KP_LEN_def OFF_UID_def OFF_FLAGS_def UID_LEN_def
  hdr_ver_def hdr_cipher_def hdr_flags_def hdr_iv_len_def hdr_kp_len_def hdr_uid_def
  u16_bytes_def u16_of_bytes_def htobe16_def be16toh_def bswap16_def CIPHER_NONE_def
  get_vault_path_def open_metadata_def open_metadata_mmap_def fs_write_def rvault_init_def
  rvault_open_hdr_def rvault_open_key_def rvault_open_verify_def rvault_open_def
  rvault_open_ekey_def close_fail_def rvault_close_def rvault_close_files_def mmap_read_eval
  free_path_def crypto_destroy_def
  demo_env_def demo_fs_def replicate_numeral

lemma or_fail_Inl_iff: "or_fail e' r = Inl e \<longleftrightarrow> r = None \<and> e = e'"
  by (cases r) (auto simp: or_fail_def)

lemma or_fail_Inr_iff: "or_fail e' r = Inr x \<longleftrightarrow> r = Some x"
  by (cases r) (auto simp: or_fail_def)

subsection \<open>Closing\<close>

declare close_files_loop.simps [simp del]

lemma close_files_loop_eq:
  "close_files_loop v =
     (file_list v,
      v\<lparr>file_list := [], file_count := file_count v - of_nat (length (file_list v))\<rparr>)"
proof (induction "file_list v" arbitrary: v)
  case Nil
  then have "file_list v = []" by simp
  then show ?case by (subst close_files_loop.simps) simp
next
  case (Cons f fs)
  then have fl: "file_list v = f # fs" by simp
  then have "fs = file_list (fileobj_close v f)" by (simp add: fileobj_close_def)
  from Cons.hyps(1) [OF this] fl show ?case
    by (subst close_files_loop.simps) (simp add: fileobj_close_def)
qed

lemma rvault_close_files_eq:
  assumes "unat (file_count v) = length (file_list v)"
  shows "rvault_close_files v = Inr (file_list v, v\<lparr>file_list := [], file_count := 0\<rparr>)"
proof -
  have "of_nat (unat (file_count v)) = file_count v" by simp
  with assms have "of_nat (length (file_list v)) = file_count v" by simp
  then show ?thesis
    by (simp add: rvault_close_files_def close_files_loop_eq ASSERT_def)
qed

lemma rvault_close_eq:
  assumes "unat (file_count v) = length (file_list v)"
  shows "rvault_close v =
     Inr (map Close_file (file_list v) @
          (case base_path v of None \<Rightarrow> [] | Some p \<Rightarrow> [Free_base_path p]) @
          (case crypto v of None \<Rightarrow> [] | Some cr \<Rightarrow> [Destroy_crypto cr]) @
          [Free_vault])"
  using rvault_close_files_eq [OF assms]
  by (simp add: rvault_close_def free_path_def crypto_destroy_def split: option.splits)

lemma close_fail_eq:
  "unat (file_count v) = length (file_list v) \<Longrightarrow> close_fail v e = Inl e"
  by (simp add: close_fail_def rvault_close_eq)


subsection \<open>The failures of each step\<close>

lemma buf_read8_Inl: "buf_read8 b off = Inl e \<Longrightarrow> e = Mem_fault"
  by (simp add: buf_read8_def split: if_splits)

lemma buf_read16_Inl: "buf_read16 le b off = Inl e \<Longrightarrow> e = Mem_fault"
  by (simp add: buf_read16_def split: if_splits)

lemma buf_read_Inl: "buf_read b off n = Inl e \<Longrightarrow> e = Mem_fault"
  by (simp add: buf_read_def split: if_splits)

lemma mmap_read_Inl: "mmap_read env b off n = Inl e \<Longrightarrow> e = Mem_fault"
  by (simp add: mmap_read_def buf_read_def split: if_splits)

lemma buf_write_Inl: "buf_write b off src = Inl e \<Longrightarrow> e = Mem_fault"
  by (simp add: buf_write_def split: if_splits)

lemma hdr_field_Inl:
  "hdr_ver h = Inl e \<Longrightarrow> e = Mem_fault"
  "hdr_cipher h = Inl e \<Longrightarrow> e = Mem_fault"
  "hdr_flags h = Inl e \<Longrightarrow> e = Mem_fault"
  "hdr_iv_len le h = Inl e \<Longrightarrow> e = Mem_fault"
  "hdr_kp_len le h = Inl e \<Longrightarrow> e = Mem_fault"
  "hdr_uid h = Inl e \<Longrightarrow> e = Mem_fault"
  by (auto simp: hdr_ver_def hdr_cipher_def hdr_flags_def hdr_iv_len_def hdr_kp_len_def
      hdr_uid_def dest: buf_read8_Inl buf_read16_Inl buf_read_Inl)

lemma hdr_macro_Inl:
  "RVAULT_HDR_TO_KP le h = Inl e \<Longrightarrow> e = Mem_fault"
  "RVAULT_HDR_TO_HMAC le h = Inl e \<Longrightarrow> e = Mem_fault"
  "RVAULT_HMAC_DATALEN le h = Inl e \<Longrightarrow> e = Mem_fault"
  "RVAULT_FILE_LEN le h = Inl e \<Longrightarrow> e = Mem_fault"
  by (auto simp: RVAULT_HDR_TO_KP_def RVAULT_HDR_TO_HMAC_def RVAULT_HMAC_DATALEN_def
      RVAULT_FILE_LEN_def and_then_Inl_iff dest: hdr_field_Inl)

lemma rvault_open_hdr_Inl:
  assumes "rvault_open_hdr env hdr server = Inl e"
  shows "e \<in> {Mem_fault, Incompatible_version, Metadata_corrupted, Alloc_failed,
              Crypto_create_failed, Set_iv_failed}"
  using assms
  by (auto simp: rvault_open_hdr_def and_then_Inl_iff Let_def close_fail_eq
      split: if_splits option.splits
      dest: hdr_field_Inl hdr_macro_Inl buf_read_Inl)

lemma rvault_open_hdr_Inr:
  assumes "rvault_open_hdr env hdr server = Inr v"
  shows "crypto v \<noteq> None \<and> base_path v = None \<and> file_list v = [] \<and> file_count v = 0 \<and>
         server_url v = server"
  using assms
  by (auto simp: rvault_open_hdr_def and_then_Inr_iff Let_def close_fail_eq
      split: if_splits option.splits)


lemma rvault_open_key_Inl:
  assumes "rvault_open_key env hdr v server pwd = Inl e" and "crypto v \<noteq> None"
  shows "e \<in> {Mem_fault, Passphrase_key_failed, No_server_url, Key_get_failed}"
proof -
  have auth: "e' \<in> {No_server_url, Key_get_failed}"
    if "(case server of None \<Rightarrow> Inl No_server_url
         | Some url \<Rightarrow> or_fail Key_get_failed (rvault_key_get env url u c)) = Inl e'"
    for e' u c
    using that by (cases server) (auto simp: or_fail_Inl_iff)
  from assms show ?thesis
    by (auto simp: rvault_open_key_def and_then_Inl_iff or_fail_Inl_iff or_fail_Inr_iff
        split: if_splits
        dest: hdr_field_Inl hdr_macro_Inl mmap_read_Inl auth)
qed

lemma rvault_hmac_compute_Inl:
  "rvault_hmac_compute env cr hdr = Inl e \<Longrightarrow> e \<in> {Mem_fault, Assert_failed}"
  by (auto simp: rvault_hmac_compute_def and_then_Inl_iff split: option.splits
      dest: hdr_macro_Inl buf_read_Inl)

lemma rvault_open_verify_Inl:
  "rvault_open_verify env hdr cr = Inl e \<Longrightarrow> e \<in> {Mem_fault, Assert_failed, Verification_failed}"
  by (auto simp: rvault_open_verify_def rvault_hmac_verify_def and_then_Inl_iff
      split: if_splits option.splits
      dest: hdr_macro_Inl buf_read_Inl rvault_hmac_compute_Inl)

lemma open_metadata_mmap_Inl:
  "open_metadata_mmap env fs path = Inl e \<Longrightarrow>
   e \<in> {Not_found, Not_a_directory, Alloc_failed, Open_failed ENOENT, Metadata_corrupted}"
  by (auto simp: open_metadata_mmap_def open_metadata_def get_vault_path_def Let_def
      split: if_splits option.splits sum.splits prod.splits)

lemma rvault_open_not_null_deref: "rvault_open env fs path server pwd \<noteq> Inl Null_deref"
proof
  assume a: "rvault_open env fs path server pwd = Inl Null_deref"
  show False
  proof (cases "open_metadata_mmap env fs path")
    case (Inl e)
    with a open_metadata_mmap_Inl [OF Inl] show False
      by (auto simp: rvault_open_def)
  next
    case (Inr p)
    obtain hdr bp where p: "p = (hdr, bp)" by (cases p)
    show False
    proof (cases "rvault_open_hdr env hdr server")
      case (Inl e)
      with a Inr p rvault_open_hdr_Inl [OF Inl] show False
        by (auto simp: rvault_open_def)
    next
      case v0: (Inr v0)
      note h = rvault_open_hdr_Inr [OF v0]
      let ?v = "v0\<lparr>base_path := Some bp\<rparr>"
      have inv: "unat (file_count ?v) = length (file_list ?v)" "crypto ?v \<noteq> None"
        using h by simp_all
      show False
      proof (cases "rvault_open_key env hdr ?v server pwd")
        case (Inl e)
        with a Inr p v0 rvault_open_key_Inl [OF Inl inv(2)] inv(1) show False
          by (auto simp: rvault_open_def Let_def close_fail_eq)
      next
        case cr: (Inr cr)
        have inv': "unat (file_count (?v\<lparr>crypto := Some cr\<rparr>)) =
            length (file_list (?v\<lparr>crypto := Some cr\<rparr>))"
          using h by simp
        show False
        proof (cases "rvault_open_verify env hdr cr")
          case (Inl e)
          with a Inr p v0 cr rvault_open_verify_Inl [OF Inl] inv' show False
            by (auto simp: rvault_open_def Let_def close_fail_eq)
        next
          case (Inr u)
          with a \<open>open_metadata_mmap env fs path = Inr p\<close> p v0 cr show False
            by (auto simp: rvault_open_def Let_def)
        qed
      qed
    qed
  qed
qed

lemma get_vault_path_Inl:
  "get_vault_path fs path = Inl e \<Longrightarrow> e \<in> {Not_found, Not_a_directory}"
  by (auto simp: get_vault_path_def split: option.splits if_splits)

lemma rvault_open_ekey_not_null_deref: "rvault_open_ekey env fs path recovery \<noteq> Inl Null_deref"
proof
  assume a: "rvault_open_ekey env fs path recovery = Inl Null_deref"
  then obtain blob hdr key bp where
    b: "files fs recovery = Some blob" "rvault_recovery_import env blob = Some (hdr, key)"
      "get_vault_path fs path = Inr bp"
    by (auto simp: rvault_open_ekey_def and_then_Inl_iff or_fail_Inl_iff or_fail_Inr_iff
        dest: get_vault_path_Inl)
  show False
  proof (cases "rvault_open_hdr env hdr None")
    case (Inl e)
    with a b rvault_open_hdr_Inl [OF Inl] show False
      by (auto simp: rvault_open_ekey_def)
  next
    case v0: (Inr v0)
    note h = rvault_open_hdr_Inr [OF v0]
    let ?v = "v0\<lparr>base_path := Some bp\<rparr>"
    have inv: "unat (file_count ?v) = length (file_list ?v)"
      using h by simp
    from h obtain cr where "crypto v0 = Some cr" by auto
    with a b v0 inv show False
      by (auto simp: rvault_open_ekey_def Let_def close_fail_eq split: option.splits)
  qed
qed

subsection \<open>Directory iteration\<close>

lemma record_call_app: "record_call log n e = log @ [(n, e)]"
  by (simp add: record_call_def)

lemma shown_special: "e = ''.'' \<or> e = ''..'' \<Longrightarrow> shown env e"
  by (auto simp add: shown_def)

lemma shown_hidden:
  "\<not> (e = ''.'' \<or> e = ''..'') \<Longrightarrow>
   first_is_dot e \<or> strncmp_eq e (RVAULT_META_PREF env) (RVAULT_META_PREFLEN env) \<Longrightarrow>
   \<not> shown env e"
  by (auto simp add: shown_def)

lemma shown_plain:
  "\<not> (first_is_dot e \<or> strncmp_eq e (RVAULT_META_PREF env) (RVAULT_META_PREFLEN env)) \<Longrightarrow>
   shown env e"
  by (auto simp add: shown_def)

lemma name_for_special: "e = ''.'' \<or> e = ''..'' \<Longrightarrow> name_for env v e = Some e"
  by (auto simp add: name_for_def)

lemma name_for_plain:
  "\<not> (e = ''.'' \<or> e = ''..'') \<Longrightarrow> name_for env v e = rvault_resolve_vname env v e"
  by (auto simp add: name_for_def)

text \<open>
  What the recording callback has seen after the loop: its log grows by one pair for
  each surfaced entry, in the order of the directory, up to the entry at which the loop
  returns.
\<close>

lemma iter_entries_log:
  "iter_entries env v record_call ents log = (ret, calls) \<Longrightarrow>
   \<exists>new. calls = log @ new \<and>
     (ret = 0 \<longrightarrow> map snd new = filter (shown env) ents) \<and>
     (\<forall>(n, e) \<in> set new. e \<in> set ents \<and> shown env e \<and> name_for env v e = Some n)"
proof (induction ents arbitrary: log)
  case Nil
  then show ?case by simp
next
  case (Cons e ents)
  show ?case
  proof (cases "e = ''.'' \<or> e = ''..''")
    case True
    with Cons.prems record_call_app [of log e e]
    have "iter_entries env v record_call ents (log @ [(e, e)]) = (ret, calls)"
      by auto
    from Cons.IH [OF this] obtain new where n: "calls = (log @ [(e, e)]) @ new"
      "ret = 0 \<longrightarrow> map snd new = filter (shown env) ents"
      "\<forall>(n, e) \<in> set new. e \<in> set ents \<and> shown env e \<and> name_for env v e = Some n"
      by blast
    show ?thesis
      apply (rule exI [of _ "(e, e) # new"])
      using n True shown_special [of e env] name_for_special [of e env v] by auto
  next
    case False
    note ns = this
    show ?thesis
    proof (cases "first_is_dot e \<or> strncmp_eq e (RVAULT_META_PREF env) (RVAULT_META_PREFLEN env)")
      case True
      with ns Cons.prems have "iter_entries env v record_call ents log = (ret, calls)"
        by (auto split: if_splits)
      from Cons.IH [OF this] obtain new where n: "calls = log @ new"
        "ret = 0 \<longrightarrow> map snd new = filter (shown env) ents"
        "\<forall>(n, e) \<in> set new. e \<in> set ents \<and> shown env e \<and> name_for env v e = Some n"
        by blast
      show ?thesis
        apply (rule exI [of _ new])
        using n True ns shown_hidden [of e env] by auto
    next
      case False
      note vis = this
      show ?thesis
      proof (cases "rvault_resolve_vname env v e")
        case None
        with ns vis Cons.prems have "ret = - 1" "calls = log" by auto
        then show ?thesis by simp
      next
        case (Some name)
        with ns vis Cons.prems record_call_app [of log name e]
        have "iter_entries env v record_call ents (log @ [(name, e)]) = (ret, calls)"
          by auto
        from Cons.IH [OF this] obtain new where n: "calls = (log @ [(name, e)]) @ new"
          "ret = 0 \<longrightarrow> map snd new = filter (shown env) ents"
          "\<forall>(n, e) \<in> set new. e \<in> set ents \<and> shown env e \<and> name_for env v e = Some n"
          by blast
        show ?thesis
          apply (rule exI [of _ "(name, e) # new"])
          using n ns vis Some shown_plain [of e env] name_for_plain [of e env v] by auto
      qed
    qed
  qed
qed

text \<open>
  The log stands for any callback: the loop returns the same value for every callback,
  and the final argument is the callback folded over the recorded invocations.
\<close>

lemma iter_entries_any_callback:
  "iter_entries env v record_call ents log = (ret, calls) \<Longrightarrow>
   iter_entries env v f ents s = (ret', s') \<Longrightarrow>
   ret' = ret \<and> s' = foldl (\<lambda>a (n, e). f a n e) s (drop (length log) calls)"
proof (induction ents arbitrary: log s)
  case Nil
  then show ?case by simp
next
  case (Cons e ents)
  have len: "\<And>l. iter_entries env v record_call ents l = (ret, calls) \<Longrightarrow> \<exists>new. calls = l @ new"
    using iter_entries_log by blast
  show ?case
  proof (cases "e = ''.'' \<or> e = ''..''")
    case True
    with Cons.prems record_call_app [of log e e]
    have a: "iter_entries env v record_call ents (log @ [(e, e)]) = (ret, calls)"
      and b: "iter_entries env v f ents (f s e e) = (ret', s')"
      by auto
    from len [OF a] obtain new where "calls = (log @ [(e, e)]) @ new" by blast
    with Cons.IH [OF a b] show ?thesis by simp
  next
    case False
    note ns = this
    show ?thesis
    proof (cases "first_is_dot e \<or> strncmp_eq e (RVAULT_META_PREF env) (RVAULT_META_PREFLEN env)")
      case True
      with ns Cons.prems have a: "iter_entries env v record_call ents log = (ret, calls)"
        and b: "iter_entries env v f ents s = (ret', s')"
        by (auto split: if_splits)
      from Cons.IH [OF a b] show ?thesis .
    next
      case False
      note vis = this
      show ?thesis
      proof (cases "rvault_resolve_vname env v e")
        case None
        with ns vis Cons.prems show ?thesis by auto
      next
        case (Some name)
        with ns vis Cons.prems record_call_app [of log name e]
        have a: "iter_entries env v record_call ents (log @ [(name, e)]) = (ret, calls)"
          and b: "iter_entries env v f ents (f s name e) = (ret', s')"
          by auto
        from len [OF a] obtain new where "calls = (log @ [(name, e)]) @ new" by blast
        with Cons.IH [OF a b] show ?thesis by simp
      qed
    qed
  qed
qed

lemma iter_entries_stop:
  "iter_entries env vault f pre s = (0, s') \<Longrightarrow>
   bad \<noteq> ''.'' \<Longrightarrow> bad \<noteq> ''..'' \<Longrightarrow> \<not> first_is_dot bad \<Longrightarrow>
   \<not> strncmp_eq bad (RVAULT_META_PREF env) (RVAULT_META_PREFLEN env) \<Longrightarrow>
   rvault_resolve_vname env vault bad = None \<Longrightarrow>
   iter_entries env vault f (pre @ bad # post) s = (- 1, s')"
  by (induction pre arbitrary: s) (auto split: if_splits option.splits)



text \<open>
  Claim C7, as stated: an entry whose name fails to resolve is skipped, and the
  enumeration goes on and returns success.  It does not: in the directory with the
  entries \<open>.\<close>, \<open>a\<close>, \<open>bad\<close>, \<open>b\<close>, where \<open>bad\<close> does not resolve, the iteration returns -1
  and the callback never sees \<open>b\<close>.
\<close>

theorem iter_dir_continues_counterexample:
  "rvault_resolve_vname (demo_env False) demo_vault ''bad'' = None \<and>
   dir_entries (demo_fs 0) ''/e'' = Some [''.'', ''a'', ''bad'', ''b''] \<and>
   rvault_iter_dir (demo_env False) (demo_fs 0) demo_vault ''/e'' [] record_call =
     (- 1, [(''.'', ''.''), (''xa'', ''a'')])"
  by code_simp

text \<open>
  Claim C7, amended.  A stored entry that is not filtered out and whose name fails to
  resolve ends the enumeration: \<^verbatim>\<open>rvault_iter_dir\<close> returns -1 there, the callback has
  been invoked for the entries before it and is not invoked for any entry after it.
\<close>

theorem iter_dir_stops_at_unresolved:
  assumes "rvault_resolve_path env vault path = Some vpath"
    and "dir_entries fs vpath = Some (pre @ bad # post)"
    and "iter_entries env vault iterfunc pre arg = (0, arg')"
    and "shown env bad" and "bad \<noteq> ''.''" and "bad \<noteq> ''..''"
    and "rvault_resolve_vname env vault bad = None"
  shows "rvault_iter_dir env fs vault path arg iterfunc = (- 1, arg')"
proof -
  from assms(4-6) have "\<not> first_is_dot bad"
    and "\<not> strncmp_eq bad (RVAULT_META_PREF env) (RVAULT_META_PREFLEN env)"
    by (auto simp add: shown_def)
  with assms iter_entries_stop [of env vault iterfunc pre arg arg' bad post]
  show ?thesis by (simp add: rvault_iter_dir_def)
qed

theorem iter_dir_stops_at_unresolved_witness:
  "rvault_resolve_path (demo_env False) demo_vault ''/e'' = Some ''/e'' \<and>
   dir_entries (demo_fs 0) ''/e'' = Some ([''.'', ''a''] @ ''bad'' # [''b'']) \<and>
   iter_entries (demo_env False) demo_vault record_call [''.'', ''a''] [] =
     (0, [(''.'', ''.''), (''xa'', ''a'')]) \<and>
   shown (demo_env False) ''bad'' \<and>
   rvault_resolve_vname (demo_env False) demo_vault ''bad'' = None \<and>
   rvault_iter_dir (demo_env False) (demo_fs 0) demo_vault ''/e'' [] record_call =
     (- 1, [(''.'', ''.''), (''xa'', ''a'')])"
proof -
  have h1: "rvault_resolve_path (demo_env False) demo_vault ''/e'' = Some ''/e''"
    by (simp add: demo_env_def)
  have h2: "dir_entries (demo_fs 0) ''/e'' = Some ([''.'', ''a''] @ ''bad'' # [''b''])"
    by (simp add: demo_fs_def)
  have h3: "iter_entries (demo_env False) demo_vault record_call [''.'', ''a''] [] =
     (0, [(''.'', ''.''), (''xa'', ''a'')])"
    by code_simp
  have h4: "shown (demo_env False) ''bad''"
    by code_simp
  have h5: "''bad'' \<noteq> ''.''" "''bad'' \<noteq> ''..''" by simp_all
  have h6: "rvault_resolve_vname (demo_env False) demo_vault ''bad'' = None"
    by (simp add: demo_env_def)
  from iter_dir_stops_at_unresolved [OF h1 h2 h3 h4 h5 h6] h1 h2 h3 h4 h6 show ?thesis
    by simp
qed

lemma rvault_open_ekey_not_assert: "rvault_open_ekey env fs path recovery \<noteq> Inl Assert_failed"
proof
  assume a: "rvault_open_ekey env fs path recovery = Inl Assert_failed"
  then obtain blob hdr key bp where
    b: "files fs recovery = Some blob" "rvault_recovery_import env blob = Some (hdr, key)"
      "get_vault_path fs path = Inr bp"
    by (auto simp: rvault_open_ekey_def and_then_Inl_iff or_fail_Inl_iff or_fail_Inr_iff
        dest: get_vault_path_Inl)
  show False
  proof (cases "rvault_open_hdr env hdr None")
    case (Inl e)
    with a b rvault_open_hdr_Inl [OF Inl] show False
      by (auto simp: rvault_open_ekey_def)
  next
    case v0: (Inr v0)
    note h = rvault_open_hdr_Inr [OF v0]
    let ?v = "v0\<lparr>base_path := Some bp\<rparr>"
    have inv: "unat (file_count ?v) = length (file_list ?v)"
      using h by simp
    from h obtain cr where "crypto v0 = Some cr" by auto
    with a b v0 inv show False
      by (auto simp: rvault_open_ekey_def Let_def close_fail_eq split: option.splits)
  qed
qed

text \<open>
  Claim C10.  \<^verbatim>\<open>rvault_close\<close> is safe on a vault whose base path or crypto state is
  unset: it closes every file object of the list, in order, and leaves the list empty
  and the count at 0; then it frees the base path if there is one, destroys the crypto
  state if there is one, and frees the vault.  It never fails.  The error exits of
  \<^verbatim>\<open>rvault_open_hdr\<close>, \<^verbatim>\<open>rvault_open\<close> and \<^verbatim>\<open>rvault_open_ekey\<close>, which call it, never
  end in a NULL dereference, and those of \<^verbatim>\<open>rvault_open_hdr\<close> and \<^verbatim>\<open>rvault_open_ekey\<close>
  never in a failed assertion.
\<close>

theorem rvault_close_safe:
  assumes "unat (file_count v) = length (file_list v)"
  shows "rvault_close v =
           Inr (map Close_file (file_list v) @
                (case base_path v of None \<Rightarrow> [] | Some p \<Rightarrow> [Free_base_path p]) @
                (case crypto v of None \<Rightarrow> [] | Some cr \<Rightarrow> [Destroy_crypto cr]) @
                [Free_vault]) \<and>
         (\<exists>v'. rvault_close_files v = Inr (file_list v, v') \<and>
               file_list v' = [] \<and> file_count v' = 0) \<and>
         rvault_open_hdr env hdr server \<noteq> Inl Null_deref \<and>
         rvault_open_hdr env hdr server \<noteq> Inl Assert_failed \<and>
         rvault_open env fs path server pwd \<noteq> Inl Null_deref \<and>
         rvault_open_ekey env fs path recovery \<noteq> Inl Null_deref \<and>
         rvault_open_ekey env fs path recovery \<noteq> Inl Assert_failed"
proof -
  have "rvault_open_hdr env hdr server \<noteq> Inl Null_deref"
    and "rvault_open_hdr env hdr server \<noteq> Inl Assert_failed"
    using rvault_open_hdr_Inl [of env hdr server] by auto
  then show ?thesis
    using rvault_close_eq [OF assms] rvault_close_files_eq [OF assms]
      rvault_open_not_null_deref rvault_open_ekey_not_null_deref rvault_open_ekey_not_assert
    by simp
qed

theorem rvault_close_safe_witness:
  "unat (file_count demo_partial_vault) = length (file_list demo_partial_vault) \<and>
   base_path demo_partial_vault = None \<and> crypto demo_partial_vault = None \<and>
   rvault_close demo_partial_vault = Inr [Close_file 3, Close_file 5, Free_vault]"
proof -
  have h: "unat (file_count demo_partial_vault) = length (file_list demo_partial_vault)"
    by (simp add: demo_partial_vault_def)
  from rvault_close_safe [OF h] h show ?thesis
    by (simp add: demo_partial_vault_def)
qed

subsection \<open>Initialization and the file system\<close>

lemma init_cipher_Inl: "init_cipher env cs = Inl e \<Longrightarrow> e = Invalid_cipher"
  by (auto simp: init_cipher_def split: option.splits if_splits)

lemma init_hdr_fields_Inl: "init_hdr_fields env h c fl iv kp = Inl e \<Longrightarrow> e = Mem_fault"
  by (auto simp: init_hdr_fields_def and_then_Inl_iff dest: buf_write_Inl hdr_macro_Inl)

lemma init_uid_Inl: "init_uid env s = Inl e \<Longrightarrow> e = Invalid_uid"
  by (auto simp: init_uid_def split: option.splits if_splits)

lemma init_register_Inl:
  "init_register env server u cr fl = Inl e \<Longrightarrow> e \<in> {No_server_url, Key_set_failed}"
  by (auto simp: init_register_def or_fail_Inl_iff split: option.splits if_splits)

lemma init_hmac_Inl:
  "init_hmac env cr h = Inl e \<Longrightarrow> e \<in> {Mem_fault, Assert_failed, Hmac_failed}"
  by (auto simp: init_hmac_def and_then_Inl_iff or_fail_Inl_iff
      dest: buf_write_Inl hdr_macro_Inl rvault_hmac_compute_Inl)

lemma ASSERT_Inl: "ASSERT c = Inl e \<Longrightarrow> e = Assert_failed"
  by (simp add: ASSERT_def split: if_splits)

lemma calloc_Inl: "calloc a n = Inl e \<Longrightarrow> e = Alloc_failed"
  by (simp add: calloc_def split: if_splits)

lemma calloc_Inr: "calloc a n = Inr b \<Longrightarrow> a"
  by (simp add: calloc_def split: if_splits)

lemma init_record_Inl:
  assumes "init_record env server pwd uid_str cipher_str flags = Inl e"
  shows "e \<in> {Invalid_cipher, Crypto_create_failed, Gen_iv_failed, Set_iv_failed,
              Kdf_params_failed, Assert_failed, Passphrase_key_failed, Alloc_failed,
              Mem_fault, Invalid_uid, No_server_url, Key_set_failed, Hmac_failed}"
  using assms unfolding init_record_def and_then_Inl_iff or_fail_Inl_iff
  by (elim disjE exE conjE)
     (auto dest: init_cipher_Inl init_hdr_fields_Inl init_uid_Inl init_register_Inl
        init_hmac_Inl ASSERT_Inl calloc_Inl buf_write_Inl)

lemma init_record_Inr:
  assumes "init_record env server pwd uid_str cipher_str flags = Inr hdr"
  shows "can_alloc env"
  using assms unfolding init_record_def and_then_Inr_iff
  by (elim exE conjE) (auto dest: calloc_Inr)


text \<open>
  Claim C6, as stated: when the write of the metadata fails after the file has been
  created, the partial file is removed.  It is not: with room for ten bytes on the
  device, \<^verbatim>\<open>rvault_init\<close> fails at the write and the first ten bytes of the record
  stay in the new metadata file.
\<close>

theorem init_removes_partial_file_counterexample:
  "files (demo_fs 10) ''/v/rvault.metadata'' = None \<and>
   fst (rvault_init (demo_env False) (demo_fs 10) ''/v'' None ''pw'' ''00'' None 1) =
     Inl Write_failed \<and>
   files (snd (rvault_init (demo_env False) (demo_fs 10) ''/v'' None ''pw'' ''00'' None 1))
     ''/v/rvault.metadata'' = Some [1, 1, 0, 2, 0, 1, 0, 0, 0, 0]"
  by (simp add: eval_defs Let_def)

text \<open>
  Claim C6, amended.  A failure of \<^verbatim>\<open>rvault_init\<close> at any step other than the write of
  the metadata (cipher, IV, KDF parameters, key, UID, registration, HMAC, or the
  exclusive create itself) leaves the file system as it was.  A failure of the write
  leaves the newly created metadata file in place, holding the bytes that were written.
\<close>

theorem init_failure_artifacts:
  assumes "rvault_init env fs path server pwd uid_str cipher_str flags = (Inl e, fs')"
  shows "(e \<noteq> Write_failed \<longrightarrow> fs' = fs) \<and>
         (e = Write_failed \<longrightarrow>
            (\<exists>rpath hdr.
               get_vault_path fs path = Inr rpath \<and>
               init_record env server pwd uid_str cipher_str flags = Inr hdr \<and>
               files fs (rpath @ ''/'' @ RVAULT_META_FILE env) = None \<and>
               space_left fs < length hdr \<and>
               fs' = fs\<lparr>files := (files fs)(rpath @ ''/'' @ RVAULT_META_FILE env \<mapsto>
                                       take (space_left fs) hdr),
                         space_left := 0\<rparr>))"
proof (cases "init_record env server pwd uid_str cipher_str flags")
  case (Inl e')
  with assms init_record_Inl [OF Inl] show ?thesis
    by (auto simp: rvault_init_def)
next
  case (Inr hdr)
  show ?thesis
  proof (cases "get_vault_path fs path")
    case (Inl e')
    with assms Inr get_vault_path_Inl [OF Inl] show ?thesis
      by (auto simp: rvault_init_def open_metadata_def)
  next
    case rp: (Inr rpath)
    let ?f = "rpath @ ''/'' @ RVAULT_META_FILE env"
    show ?thesis
    proof (cases "files fs ?f")
      case None
      with assms Inr rp init_record_Inr [OF Inr] show ?thesis
        by (auto simp: rvault_init_def open_metadata_def fs_write_def Let_def min_def
            split: if_splits)
    next
      case (Some old)
      with assms Inr rp init_record_Inr [OF Inr] show ?thesis
        by (auto simp: rvault_init_def open_metadata_def)
    qed
  qed
qed

theorem init_failure_artifacts_witness:
  "fst (rvault_init (demo_env False) (demo_fs 10) ''/v'' None ''pw'' ''00'' None 1) =
     Inl Write_failed \<and>
   space_left (snd (rvault_init (demo_env False) (demo_fs 10) ''/v'' None ''pw'' ''00'' None 1)) = 0 \<and>
   fst (rvault_init (demo_env False) (demo_fs 10) ''/v'' None ''pw'' ''zz'' None 1) =
     Inl Invalid_uid \<and>
   snd (rvault_init (demo_env False) (demo_fs 10) ''/v'' None ''pw'' ''zz'' None 1) = demo_fs 10"
proof -
  have h1: "fst (rvault_init (demo_env False) (demo_fs 10) ''/v'' None ''pw'' ''00'' None 1) =
     Inl Write_failed"
    by (simp add: eval_defs Let_def)
  have h2: "fst (rvault_init (demo_env False) (demo_fs 10) ''/v'' None ''pw'' ''zz'' None 1) =
     Inl Invalid_uid"
    by (simp add: eval_defs Let_def)
  have p1: "rvault_init (demo_env False) (demo_fs 10) ''/v'' None ''pw'' ''00'' None 1 =
     (Inl Write_failed,
      snd (rvault_init (demo_env False) (demo_fs 10) ''/v'' None ''pw'' ''00'' None 1))"
    using h1 by (metis prod.collapse)
  have p2: "rvault_init (demo_env False) (demo_fs 10) ''/v'' None ''pw'' ''zz'' None 1 =
     (Inl Invalid_uid,
      snd (rvault_init (demo_env False) (demo_fs 10) ''/v'' None ''pw'' ''zz'' None 1))"
    using h2 by (metis prod.collapse)
  from init_failure_artifacts [OF p1]
  have "space_left (snd (rvault_init (demo_env False) (demo_fs 10) ''/v'' None ''pw'' ''00'' None 1)) = 0"
    by auto
  moreover from init_failure_artifacts [OF p2]
  have "snd (rvault_init (demo_env False) (demo_fs 10) ''/v'' None ''pw'' ''zz'' None 1) = demo_fs 10"
    by simp
  ultimately show ?thesis using h1 h2 by simp
qed

subsection \<open>Byte order of the length fields\<close>

lemma drop_bit_8_small: "n \<le> 255 \<Longrightarrow> drop_bit 8 (of_nat n :: u16) = 0"
  by (rule unsigned_word_eqI [where ?'a = nat])
     (simp add: unat_drop_bit_eq unat_of_nat drop_bit_eq_div unat_div)

lemma push_bit_8_small: "n \<le> 255 \<Longrightarrow> unat (push_bit 8 (of_nat n :: u16)) = 256 * n"
  by (simp add: push_bit_eq_mult unat_word_ariths unat_of_nat)

text \<open>
  A length of at most 255 that is stored as it is and read through \<^verbatim>\<open>be16toh\<close> comes
  back unchanged on a big-endian host and multiplied by 256 on a little-endian host.
\<close>

lemma be16toh_of_host_order_le: "n \<le> 255 \<Longrightarrow> unat (be16toh True (of_nat n :: u16)) = 256 * n"
  by (simp add: be16toh_def bswap16_def drop_bit_8_small push_bit_8_small)

lemma be16toh_of_host_order_be: "n \<le> 65535 \<Longrightarrow> unat (be16toh False (of_nat n :: u16)) = n"
  by (simp add: be16toh_def unat_of_nat)

lemma u16_of_bytes_u16_bytes:
  "u16_of_bytes le (u16_bytes le x ! 0) (u16_bytes le x ! 1) = x"
proof -
  have "push_bit 8 (ucast (ucast (drop_bit 8 x) :: byte) :: u16) OR ucast (ucast x :: byte) = x"
    by (rule bit_word_eqI) (auto simp: bit_simps)
  then show ?thesis
    by (simp add: u16_of_bytes_def u16_bytes_def)
qed

lemma bswap16_bswap16: "bswap16 (bswap16 x) = x"
  unfolding bswap16_def
  by (rule bit_word_eqI) (auto simp: bit_simps)

lemma be16toh_htobe16: "be16toh le (htobe16 le x) = x"
  by (simp add: be16toh_def htobe16_def bswap16_bswap16)

lemma buf_write_length: "buf_write b off src = Inr b' \<Longrightarrow> length b' = length b"
  by (auto simp: buf_write_def split: if_splits)

lemma buf_write_nth:
  "buf_write b off src = Inr b' \<Longrightarrow> i < length b \<Longrightarrow>
   b' ! i = (if off \<le> i \<and> i < off + length src then src ! (i - off) else b ! i)"
  by (auto simp: buf_write_def nth_append split: if_splits)


lemma buf_read16_write_other:
  assumes "buf_write b off src = Inr b'"
    and "p + 2 \<le> off \<or> off + length src \<le> p"
  shows "buf_read16 le b' p = buf_read16 le b p"
  using assms
  by (auto simp: buf_read16_def buf_write_def nth_append split: if_splits)

lemma buf_read16_write_same:
  assumes "buf_write b p (u16_bytes le x) = Inr b'"
  shows "buf_read16 le b' p = Inr x"
proof -
  have l: "length (u16_bytes le x) = 2" by (simp add: u16_bytes_def)
  from assms l have "p + 2 \<le> length b" and "length b' = length b"
    by (auto simp: buf_write_def split: if_splits)
  moreover from assms l have "b' ! p = u16_bytes le x ! 0" "b' ! (p + 1) = u16_bytes le x ! 1"
    by (auto simp: buf_write_def nth_append split: if_splits)
  ultimately show ?thesis
    using u16_of_bytes_u16_bytes [of le x] by (simp add: buf_read16_def)
qed

text \<open>The length fields that the macros read back from the header that \<^verbatim>\<open>rvault_init\<close> fills.\<close>

lemma init_hdr_fields_lens:
  assumes "init_hdr_fields env hdr0 ciph flags iv kp = Inr hdr"
  shows "length hdr = length hdr0"
    and "hdr_kp_len (le_host env) hdr = Inr (of_nat (length kp))"
    and "hdr_iv_len (le_host env) hdr = Inr (htobe16 (le_host env) (of_nat (length iv)))"
proof -
  from assms obtain h1 h2 h3 h4 h5 h6 off where
    w: "buf_write hdr0 OFF_VER [RVAULT_ABI_VER env] = Inr h1"
       "buf_write h1 OFF_CIPHER [of_nat ciph] = Inr h2"
       "buf_write h2 OFF_FLAGS [ucast flags] = Inr h3"
       "buf_write h3 OFF_KP_LEN (u16_bytes (le_host env) (of_nat (length kp))) = Inr h4"
       "buf_write h4 OFF_IV_LEN
          (u16_bytes (le_host env) (htobe16 (le_host env) (of_nat (length iv)))) = Inr h5"
       "buf_write h5 RVAULT_HDR_TO_IV iv = Inr h6"
       "RVAULT_HDR_TO_KP (le_host env) h6 = Inr off"
       "buf_write h6 off kp = Inr hdr"
    unfolding init_hdr_fields_def and_then_Inr_iff by blast
  from w show "length hdr = length hdr0"
    by (simp add: buf_write_length)
  from w(7) have off: "RVAULT_HDR_LEN \<le> off"
    by (auto simp: RVAULT_HDR_TO_KP_def and_then_Inr_iff RVAULT_HDR_TO_IV_def)
  have hl: "RVAULT_HDR_LEN = 64"
    by (simp add: RVAULT_HDR_LEN_def STORAGE_ALIGN_def STORAGE_ALIGNMENT_def roundup2_def
        SIZEOF_HDR_def)
  have "buf_read16 (le_host env) h4 OFF_KP_LEN = Inr (of_nat (length kp))"
    using w(4) by (rule buf_read16_write_same)
  moreover have "buf_read16 (le_host env) h5 OFF_KP_LEN = buf_read16 (le_host env) h4 OFF_KP_LEN"
    using w(5) by (rule buf_read16_write_other) (simp add: OFF_KP_LEN_def OFF_IV_LEN_def u16_bytes_def)
  moreover have "buf_read16 (le_host env) h6 OFF_KP_LEN = buf_read16 (le_host env) h5 OFF_KP_LEN"
    using w(6) by (rule buf_read16_write_other) (simp add: OFF_KP_LEN_def RVAULT_HDR_TO_IV_def hl)
  moreover have "buf_read16 (le_host env) hdr OFF_KP_LEN = buf_read16 (le_host env) h6 OFF_KP_LEN"
    using w(8) by (rule buf_read16_write_other) (use off in \<open>simp add: OFF_KP_LEN_def hl\<close>)
  ultimately show "hdr_kp_len (le_host env) hdr = Inr (of_nat (length kp))"
    by (simp add: hdr_kp_len_def)
  have "buf_read16 (le_host env) h5 OFF_IV_LEN =
      Inr (htobe16 (le_host env) (of_nat (length iv)))"
    using w(5) by (rule buf_read16_write_same)
  moreover have "buf_read16 (le_host env) h6 OFF_IV_LEN = buf_read16 (le_host env) h5 OFF_IV_LEN"
    using w(6) by (rule buf_read16_write_other) (simp add: OFF_IV_LEN_def RVAULT_HDR_TO_IV_def hl)
  moreover have "buf_read16 (le_host env) hdr OFF_IV_LEN = buf_read16 (le_host env) h6 OFF_IV_LEN"
    using w(8) by (rule buf_read16_write_other) (use off in \<open>simp add: OFF_IV_LEN_def hl\<close>)
  ultimately show "hdr_iv_len (le_host env) hdr =
      Inr (htobe16 (le_host env) (of_nat (length iv)))"
    by (simp add: hdr_iv_len_def)
qed

lemma init_record_steps:
  assumes "init_record env server pwd uid_str cipher_str flags = Inr hdr"
  shows "\<exists>iv kp cr h1 u h2.
           kdf_create_params env = Some kp \<and> length kp \<le> UINT8_MAX \<and>
           length iv \<le> UINT16_MAX \<and>
           init_hdr_fields env
             (replicate (RVAULT_HDR_LEN + length iv + length kp + HMAC_SHA3_256_BUFLEN) 0)
             (case cipher_str of None \<Rightarrow> CRYPTO_CIPHER_PRIMARY env
              | Some s \<Rightarrow> crypto_cipher_id env s) flags iv kp = Inr h1 \<and>
           buf_write h1 OFF_UID u = Inr h2 \<and> length u = UID_LEN \<and>
           init_hmac env cr h2 = Inr hdr"
proof -
  from assms obtain ciph iv kp h0 h1 u h2 cr3 where
    s: "init_cipher env cipher_str = Inr ciph"
       "kdf_create_params env = Some kp"
       "ASSERT (length kp \<le> UINT8_MAX) = Inr ()"
       "ASSERT (length iv \<le> UINT16_MAX) = Inr ()"
       "calloc (can_alloc env) (RVAULT_HDR_LEN + length iv + length kp + HMAC_SHA3_256_BUFLEN)
          = Inr h0"
       "init_hdr_fields env h0 ciph flags iv kp = Inr h1"
       "init_uid env uid_str = Inr u"
       "buf_write h1 OFF_UID u = Inr h2"
       "init_hmac env cr3 h2 = Inr hdr"
    unfolding init_record_def and_then_Inr_iff or_fail_Inr_iff by auto
  from s(1) have "ciph = (case cipher_str of None \<Rightarrow> CRYPTO_CIPHER_PRIMARY env
              | Some s \<Rightarrow> crypto_cipher_id env s)"
    by (auto simp: init_cipher_def split: option.splits if_splits)
  moreover from s(5) have
    "h0 = replicate (RVAULT_HDR_LEN + length iv + length kp + HMAC_SHA3_256_BUFLEN) 0"
    by (simp add: calloc_def split: if_splits)
  moreover from s(7) have "length u = UID_LEN"
    by (auto simp: init_uid_def split: option.splits if_splits)
  moreover from s(3,4) have "length kp \<le> UINT8_MAX" "length iv \<le> UINT16_MAX"
    by (simp_all add: ASSERT_def split: if_splits)
  ultimately show ?thesis using s by blast
qed


text \<open>
  The data length that \<^verbatim>\<open>RVAULT_HMAC_DATALEN\<close> decodes from that header: the length of
  the KDF parameters counts 256 times on a little-endian host.
\<close>

lemma init_hdr_fields_datalen:
  assumes f: "init_hdr_fields env hdr0 ciph flags iv kp = Inr hdr"
    and kp: "length kp \<le> UINT8_MAX" and iv: "length iv \<le> UINT16_MAX"
  shows "RVAULT_HMAC_DATALEN (le_host env) hdr =
           Inr (RVAULT_HDR_LEN + length iv +
                (if le_host env then 256 * length kp else length kp))"
proof -
  from iv have "unat (of_nat (length iv) :: u16) = length iv"
    by (simp add: unat_of_nat UINT16_MAX_def)
  moreover from kp have "unat (be16toh (le_host env) (of_nat (length kp) :: u16)) =
      (if le_host env then 256 * length kp else length kp)"
    using be16toh_of_host_order_le [of "length kp"] be16toh_of_host_order_be [of "length kp"]
    by (simp add: UINT8_MAX_def)
  ultimately show ?thesis
    by (simp add: RVAULT_HMAC_DATALEN_def init_hdr_fields_lens [OF f] be16toh_htobe16)
qed

text \<open>
  On a little-endian host \<^verbatim>\<open>rvault_init\<close> completes the record only when the KDF
  parameter blob is empty: with any other blob the HMAC step reaches beyond the record.
\<close>

lemma init_record_little_endian:
  assumes r: "init_record env server pwd uid_str cipher_str flags = Inr hdr"
    and le: "le_host env"
  shows "kdf_create_params env = Some []"
proof -
  from init_record_steps [OF r] obtain iv kp cr h1 u h2 where
    s: "kdf_create_params env = Some kp" "length kp \<le> UINT8_MAX" "length iv \<le> UINT16_MAX"
       "init_hdr_fields env
          (replicate (RVAULT_HDR_LEN + length iv + length kp + HMAC_SHA3_256_BUFLEN) 0)
          (case cipher_str of None \<Rightarrow> CRYPTO_CIPHER_PRIMARY env
           | Some s \<Rightarrow> crypto_cipher_id env s) flags iv kp = Inr h1"
       "buf_write h1 OFF_UID u = Inr h2" "length u = UID_LEN"
       "init_hmac env cr h2 = Inr hdr"
    by blast
  have len: "length h2 = RVAULT_HDR_LEN + length iv + length kp + HMAC_SHA3_256_BUFLEN"
    using init_hdr_fields_lens(1) [OF s(4)] buf_write_length [OF s(5)] by simp
  have "hdr_iv_len (le_host env) h2 = hdr_iv_len (le_host env) h1"
    unfolding hdr_iv_len_def using s(5)
    by (rule buf_read16_write_other) (simp add: OFF_IV_LEN_def OFF_UID_def)
  moreover have "hdr_kp_len (le_host env) h2 = hdr_kp_len (le_host env) h1"
    unfolding hdr_kp_len_def using s(5)
    by (rule buf_read16_write_other) (simp add: OFF_KP_LEN_def OFF_UID_def)
  ultimately have "RVAULT_HMAC_DATALEN (le_host env) h2 = RVAULT_HMAC_DATALEN (le_host env) h1"
    by (simp add: RVAULT_HMAC_DATALEN_def cong del: and_then_weak_cong)
  with init_hdr_fields_datalen [OF s(4) s(2) s(3)] le
  have dl: "RVAULT_HMAC_DATALEN (le_host env) h2 =
      Inr (RVAULT_HDR_LEN + length iv + 256 * length kp)"
    by simp
  from s(7) obtain data where
    "buf_read h2 0 (RVAULT_HDR_LEN + length iv + 256 * length kp) = Inr data"
    by (auto simp: init_hmac_def rvault_hmac_compute_def and_then_Inr_iff dl
        split: option.splits)
  then have "RVAULT_HDR_LEN + length iv + 256 * length kp \<le> length h2"
    by (simp add: buf_read_def split: if_splits)
  with len have "255 * length kp \<le> 32"
    by (simp add: HMAC_SHA3_256_BUFLEN_def)
  then have "length kp = 0"
    by (cases "length kp") simp_all
  with s(1) show ?thesis by simp
qed


lemma ucast_lo_byte: "n \<le> 65535 \<Longrightarrow> (ucast (of_nat n :: u16) :: byte) = of_nat (n mod 256)"
  by (rule unsigned_word_eqI [where ?'a = nat])
     (simp add: unsigned_ucast_eq unat_of_nat take_bit_eq_mod)

lemma ucast_hi_byte:
  "n \<le> 65535 \<Longrightarrow> (ucast (drop_bit 8 (of_nat n :: u16)) :: byte) = of_nat (n div 256)"
  by (rule unsigned_word_eqI [where ?'a = nat])
     (simp add: unsigned_ucast_eq unat_of_nat take_bit_eq_mod unat_drop_bit_eq drop_bit_eq_div
        unat_div)

lemma u16_bytes_big_endian: "n \<le> 65535 \<Longrightarrow> u16_bytes False (of_nat n) = be16_bytes n"
  by (simp add: u16_bytes_def be16_bytes_def ucast_lo_byte ucast_hi_byte)

lemma ucast_bswap16_lo: "(ucast (bswap16 x) :: byte) = ucast (drop_bit 8 x)"
  unfolding bswap16_def by (rule bit_word_eqI) (auto simp: bit_simps)

lemma ucast_bswap16_hi: "(ucast (drop_bit 8 (bswap16 x)) :: byte) = ucast x"
  unfolding bswap16_def by (rule bit_word_eqI) (auto simp: bit_simps)

text \<open>The field \<open>iv_len\<close> is stored in big-endian order on either host.\<close>

lemma u16_bytes_htobe16:
  "n \<le> 65535 \<Longrightarrow> u16_bytes le (htobe16 le (of_nat n)) = be16_bytes n"
  by (cases le)
     (simp_all add: htobe16_def u16_bytes_big_endian,
      simp add: u16_bytes_def be16_bytes_def ucast_bswap16_lo ucast_bswap16_hi ucast_lo_byte
        ucast_hi_byte)

text \<open>
  The field \<open>kp_len\<close>, stored as it is, is in big-endian order only on a big-endian
  host, unless the blob is empty.
\<close>

lemma u16_bytes_host_order:
  assumes "0 < n" "n \<le> 255"
  shows "u16_bytes le (of_nat n) = be16_bytes n \<longleftrightarrow> \<not> le"
proof (cases le)
  case False
  with assms show ?thesis by (simp add: u16_bytes_big_endian)
next
  case True
  have "(of_nat n :: byte) \<noteq> 0"
  proof
    assume "(of_nat n :: byte) = 0"
    then have "unat (of_nat n :: byte) = 0" by simp
    with assms show False by (simp add: unat_of_nat)
  qed
  with assms True show ?thesis
    by (simp add: u16_bytes_def be16_bytes_def ucast_lo_byte ucast_hi_byte)
qed


lemma buf_read_write_same:
  "buf_write b p src = Inr b' \<Longrightarrow> buf_read b' p (length src) = Inr src"
  by (auto simp: buf_write_def buf_read_def split: if_splits)

lemma buf_read_write_other:
  assumes w: "buf_write b off src = Inr b'"
    and "p + n \<le> off \<or> off + length src \<le> p"
  shows "buf_read b' p n = buf_read b p n"
proof -
  note lb = buf_write_length [OF w]
  show ?thesis
  proof (cases "p + n \<le> length b")
    case False
    with lb show ?thesis by (simp add: buf_read_def)
  next
    case True
    have "take n (drop p b') = take n (drop p b)"
    proof (rule nth_equalityI)
      show "length (take n (drop p b')) = length (take n (drop p b))"
        using lb by simp
    next
      fix i assume "i < length (take n (drop p b'))"
      with lb True have i: "i < n" "p + i < length b" by simp_all
      with assms(2) have "\<not> (off \<le> p + i \<and> p + i < off + length src)"
        by linarith
      with i buf_write_nth [OF w, of "p + i"] have "b' ! (p + i) = b ! (p + i)"
        by auto
      with i lb show "take n (drop p b') ! i = take n (drop p b) ! i"
        by simp
    qed
    with lb True show ?thesis by (simp add: buf_read_def)
  qed
qed

text \<open>
  The bytes of the two length fields in the header that \<^verbatim>\<open>rvault_init\<close> fills: \<open>iv_len\<close>
  in big-endian order, \<open>kp_len\<close> in the byte order of the host.
\<close>

lemma init_hdr_fields_stored_lengths:
  assumes f: "init_hdr_fields env hdr0 ciph flags iv kp = Inr hdr"
    and iv: "length iv \<le> UINT16_MAX"
  shows "buf_read hdr OFF_IV_LEN 2 = Inr (be16_bytes (length iv))"
    and "buf_read hdr OFF_KP_LEN 2 = Inr (u16_bytes (le_host env) (of_nat (length kp)))"
proof -
  from f obtain h1 h2 h3 h4 h5 h6 off where
    w: "buf_write h3 OFF_KP_LEN (u16_bytes (le_host env) (of_nat (length kp))) = Inr h4"
       "buf_write h4 OFF_IV_LEN
          (u16_bytes (le_host env) (htobe16 (le_host env) (of_nat (length iv)))) = Inr h5"
       "buf_write h5 RVAULT_HDR_TO_IV iv = Inr h6"
       "RVAULT_HDR_TO_KP (le_host env) h6 = Inr off"
       "buf_write h6 off kp = Inr hdr"
    unfolding init_hdr_fields_def and_then_Inr_iff by blast
  from w(4) have off: "RVAULT_HDR_LEN \<le> off"
    by (auto simp: RVAULT_HDR_TO_KP_def and_then_Inr_iff RVAULT_HDR_TO_IV_def)
  have hl: "RVAULT_HDR_LEN = 64"
    by (simp add: RVAULT_HDR_LEN_def STORAGE_ALIGN_def STORAGE_ALIGNMENT_def roundup2_def
        SIZEOF_HDR_def)
  have l2: "length (u16_bytes le x) = 2" for le x
    by (simp add: u16_bytes_def)
  have "buf_read h5 OFF_IV_LEN 2 =
      Inr (u16_bytes (le_host env) (htobe16 (le_host env) (of_nat (length iv))))"
    using buf_read_write_same [OF w(2)] by (simp add: l2)
  moreover have "buf_read h6 OFF_IV_LEN 2 = buf_read h5 OFF_IV_LEN 2"
    using w(3) by (rule buf_read_write_other) (simp add: OFF_IV_LEN_def RVAULT_HDR_TO_IV_def hl)
  moreover have "buf_read hdr OFF_IV_LEN 2 = buf_read h6 OFF_IV_LEN 2"
    using w(5) by (rule buf_read_write_other) (use off in \<open>simp add: OFF_IV_LEN_def hl\<close>)
  ultimately show "buf_read hdr OFF_IV_LEN 2 = Inr (be16_bytes (length iv))"
    using iv by (simp add: u16_bytes_htobe16 UINT16_MAX_def)
  have "buf_read h4 OFF_KP_LEN 2 = Inr (u16_bytes (le_host env) (of_nat (length kp)))"
    using buf_read_write_same [OF w(1)] by (simp add: l2)
  moreover have "buf_read h5 OFF_KP_LEN 2 = buf_read h4 OFF_KP_LEN 2"
    using w(2) by (rule buf_read_write_other) (simp add: OFF_KP_LEN_def OFF_IV_LEN_def l2)
  moreover have "buf_read h6 OFF_KP_LEN 2 = buf_read h5 OFF_KP_LEN 2"
    using w(3) by (rule buf_read_write_other) (simp add: OFF_KP_LEN_def RVAULT_HDR_TO_IV_def hl)
  moreover have "buf_read hdr OFF_KP_LEN 2 = buf_read h6 OFF_KP_LEN 2"
    using w(5) by (rule buf_read_write_other) (use off in \<open>simp add: OFF_KP_LEN_def hl\<close>)
  ultimately show "buf_read hdr OFF_KP_LEN 2 =
      Inr (u16_bytes (le_host env) (of_nat (length kp)))"
    by simp
qed

text \<open>
  Claim C2 says that \<^verbatim>\<open>rvault_init\<close> stores both \<open>iv_len\<close> and \<open>kp_len\<close> as 16-bit
  big-endian values, as the macros of storage.h read them.  On a little-endian host,
  with an IV of two bytes and KDF parameters of one byte, the header holds \<open>iv_len\<close> in
  big-endian order and \<open>kp_len\<close> in host order: the bytes 1, 0, where big-endian is
  0, 1.  \<^verbatim>\<open>RVAULT_HMAC_DATALEN\<close> then decodes 64 + 2 + 256 = 322 where the data has
  64 + 2 + 1 = 67 bytes.
\<close>

theorem kp_len_host_order_on_little_endian:
  "succeeded (init_hdr_fields (demo_env True) (replicate 99 0) 1 1 [7, 9] [5]) \<and>
   take 2 (drop OFF_IV_LEN (projr (init_hdr_fields (demo_env True) (replicate 99 0) 1 1 [7, 9] [5])))
     = be16_bytes 2 \<and>
   take 2 (drop OFF_KP_LEN (projr (init_hdr_fields (demo_env True) (replicate 99 0) 1 1 [7, 9] [5])))
     = [1, 0] \<and>
   be16_bytes 1 = [0, 1] \<and>
   RVAULT_HMAC_DATALEN True (projr (init_hdr_fields (demo_env True) (replicate 99 0) 1 1 [7, 9] [5]))
     = Inr 322 \<and>
   RVAULT_HDR_LEN + length [7, 9 :: byte] + length [5 :: byte] = 67"
  by (simp add: eval_defs succeeded_def be16_bytes_def)

text \<open>
  Claim C1 says that a vault created by \<^verbatim>\<open>rvault_init\<close> opens with the same passphrase.
  On a little-endian host, NOAUTH, with KDF parameters of one byte: \<^verbatim>\<open>rvault_init\<close>
  computes the HMAC over 322 bytes of a record of 99 bytes, an access outside the
  buffer, and creates no metadata file, so \<^verbatim>\<open>rvault_open\<close> finds none; and the record as
  it stands in memory has \<^verbatim>\<open>RVAULT_FILE_LEN\<close> 354 against its 99 bytes, so that
  \<^verbatim>\<open>rvault_open\<close> rejects it as corrupted if it is written out.
\<close>

theorem init_open_roundtrip_fails_on_little_endian:
  "rvault_init (demo_env True) (demo_fs 1000) ''/v'' None ''pw'' ''00'' None 1 =
     (Inl Mem_fault, demo_fs 1000) \<and>
   rvault_open (demo_env True) (demo_fs 1000) ''/v'' None ''pw'' = Inl (Open_failed ENOENT) \<and>
   length (projr (init_hdr_fields (demo_env True) (replicate 99 0) 1 1 [7, 9] [5])) = 99 \<and>
   RVAULT_FILE_LEN True (projr (init_hdr_fields (demo_env True) (replicate 99 0) 1 1 [7, 9] [5]))
     = Inr 354 \<and>
   rvault_open (demo_env True) demo_fs_le_record ''/v'' None ''pw'' = Inl Metadata_corrupted"
  by (simp add: eval_defs demo_fs_le_record_def Let_def)

text \<open>On a big-endian host the same vault is created and opens with its passphrase.\<close>

lemma init_open_roundtrip_on_big_endian:
  "fst (rvault_init (demo_env False) (demo_fs 1000) ''/v'' None ''pw'' ''00'' None 1) = Inr () \<and>
   rvault_open (demo_env False)
     (snd (rvault_init (demo_env False) (demo_fs 1000) ''/v'' None ''pw'' ''00'' None 1))
     ''/v'' None ''pw'' = Inr demo_vault"
  by (simp add: eval_defs demo_vault_def Let_def)

subsection \<open>Opening by recovery\<close>

lemma rvault_open_hdr_ignores_oracles:
  "rvault_open_hdr (env\<lparr>kdf_passphrase := k, hmac_sha3_256 := h, rvault_key_get := g,
       rvault_key_set := s\<rparr>) hdr server =
   rvault_open_hdr env hdr server"
  unfolding rvault_open_hdr_def crypto_create_def crypto_set_iv_def
  by (simp cong del: and_then_weak_cong if_weak_cong cong: if_cong option.case_cong)

lemma rvault_open_ekey_Inr:
  assumes "rvault_open_ekey env fs path recovery = Inr v"
  shows "\<exists>blob hdr key ivl iv c.
           files fs recovery = Some blob \<and>
           rvault_recovery_import env blob = Some (hdr, key) \<and>
           hdr_cipher hdr = Inr c \<and>
           hdr_iv_len (le_host env) hdr = Inr ivl \<and>
           buf_read hdr RVAULT_HDR_TO_IV (unat (be16toh (le_host env) ivl)) = Inr iv \<and>
           length key = cipher_key_len env (unat c) \<and>
           crypto v = Some \<lparr>c_cipher = unat c, c_iv = Some iv, c_key = Some key\<rparr> \<and>
           server_url v = None"
proof -
  from assms obtain blob hdr key bp v0 cr cr' where
    b: "files fs recovery = Some blob" "rvault_recovery_import env blob = Some (hdr, key)"
       "rvault_open_hdr env hdr None = Inr v0" "crypto v0 = Some cr"
       "crypto_set_key env cr key = Some cr'" "v = v0\<lparr>base_path := Some bp, crypto := Some cr'\<rparr>"
    by (auto simp: rvault_open_ekey_def and_then_Inr_iff or_fail_Inr_iff Let_def
        close_fail_def and_then_Inl_iff split: option.splits)
  from b(3) obtain c ivl iv where
    h: "hdr_cipher hdr = Inr c" "hdr_iv_len (le_host env) hdr = Inr ivl"
       "buf_read hdr RVAULT_HDR_TO_IV (unat (be16toh (le_host env) ivl)) = Inr iv"
       "crypto v0 = Some \<lparr>c_cipher = unat c, c_iv = Some iv, c_key = None\<rparr>"
       "server_url v0 = None"
    by (auto simp: rvault_open_hdr_def and_then_Inr_iff Let_def close_fail_def and_then_Inl_iff
        crypto_create_def crypto_set_iv_def split: if_splits option.splits)
  from b h show ?thesis
    by (auto simp: crypto_set_key_def split: if_splits)
qed


lemma buf_read8_append:
  "off < length d \<Longrightarrow> buf_read8 (d @ t) off = Inr (d ! off)"
  by (simp add: buf_read8_def nth_append)

lemma buf_read16_append:
  "off + 2 \<le> length d \<Longrightarrow> buf_read16 le (d @ t) off = buf_read16 le d off"
  by (simp add: buf_read16_def nth_append)

lemma buf_read_append:
  "off + n \<le> length d \<Longrightarrow> buf_read (d @ t) off n = Inr (take n (drop off d))"
  by (simp add: buf_read_def)

lemma hdr_fields_append:
  assumes "SIZEOF_HDR \<le> length d"
  shows "hdr_ver (d @ t) = Inr (d ! OFF_VER)"
    and "hdr_cipher (d @ t) = Inr (d ! OFF_CIPHER)"
    and "hdr_flags (d @ t) = Inr (d ! OFF_FLAGS)"
    and "hdr_iv_len le (d @ t) = hdr_iv_len le d"
    and "hdr_kp_len le (d @ t) = hdr_kp_len le d"
    and "hdr_uid (d @ t) = Inr (take UID_LEN (drop OFF_UID d))"
  using assms
  by (auto simp add: hdr_ver_def hdr_cipher_def hdr_flags_def hdr_iv_len_def hdr_kp_len_def
      hdr_uid_def buf_read8_def buf_read16_def buf_read_def nth_append
      SIZEOF_HDR_def OFF_VER_def OFF_CIPHER_def OFF_FLAGS_def OFF_IV_LEN_def OFF_KP_LEN_def
      OFF_UID_def UID_LEN_def)

lemma hdr_len_fields_Inr:
  assumes "SIZEOF_HDR \<le> length d"
  shows "\<exists>ivl kpl. hdr_iv_len le d = Inr ivl \<and> hdr_kp_len le d = Inr kpl"
  using assms
  by (simp add: hdr_iv_len_def hdr_kp_len_def buf_read16_def SIZEOF_HDR_def OFF_IV_LEN_def
      OFF_KP_LEN_def)

lemma rvault_open_hdr_ignores_tag:
  assumes t: "length t = HMAC_SHA3_256_BUFLEN" "length t' = HMAC_SHA3_256_BUFLEN"
    and d: "SIZEOF_HDR \<le> length d"
  shows "rvault_open_hdr env (d @ t') server = rvault_open_hdr env (d @ t) server"
proof -
  from hdr_len_fields_Inr [OF d] obtain ivl kpl where
    l: "hdr_iv_len (le_host env) d = Inr ivl" "hdr_kp_len (le_host env) d = Inr kpl"
    by blast
  let ?iv = "unat (be16toh (le_host env) ivl)"
  let ?flen = "RVAULT_HDR_LEN + ?iv + unat (be16toh (le_host env) kpl) + HMAC_SHA3_256_BUFLEN"
  have fl: "RVAULT_FILE_LEN (le_host env) (d @ x) = Inr ?flen" for x
    using l by (simp add: RVAULT_FILE_LEN_def RVAULT_HMAC_DATALEN_def hdr_fields_append [OF d])
  show ?thesis
  proof (cases "?flen = length d + HMAC_SHA3_256_BUFLEN")
    case True
    then have "RVAULT_HDR_TO_IV + ?iv \<le> length d"
      by (simp add: RVAULT_HDR_TO_IV_def)
    then have iv: "buf_read (d @ x) RVAULT_HDR_TO_IV ?iv = Inr (take ?iv (drop RVAULT_HDR_TO_IV d))" for x
      by (rule buf_read_append)
    show ?thesis
      using t l True
      by (simp add: rvault_open_hdr_def hdr_fields_append [OF d] fl iv Let_def
          split: option.splits)
  next
    case False
    then show ?thesis
      using t l by (simp add: rvault_open_hdr_def hdr_fields_append [OF d] fl)
  qed
qed


lemma rvault_open_ekey_ignores_oracles:
  "rvault_open_ekey (env\<lparr>kdf_passphrase := k, hmac_sha3_256 := h, rvault_key_get := g,
       rvault_key_set := s\<rparr>) fs path recovery =
   rvault_open_ekey env fs path recovery"
  unfolding rvault_open_ekey_def rvault_open_hdr_ignores_oracles crypto_set_key_def
  by (simp cong del: and_then_weak_cong if_weak_cong cong: if_cong option.case_cong)

lemma rvault_open_ekey_ignores_tag:
  assumes "files fs recovery = Some blob" "rvault_recovery_import env blob = Some (d @ t, key)"
    and "files fs recovery' = Some blob'" "rvault_recovery_import env blob' = Some (d @ t', key)"
    and "length t = HMAC_SHA3_256_BUFLEN" "length t' = HMAC_SHA3_256_BUFLEN"
    and "SIZEOF_HDR \<le> length d"
  shows "rvault_open_ekey env fs path recovery' = rvault_open_ekey env fs path recovery"
  using assms(1-4) rvault_open_hdr_ignores_tag [OF assms(5-7), of env None]
  by (simp add: rvault_open_ekey_def cong del: and_then_weak_cong)


lemma demo_record_eq:
  "demo_record = [1, 1, 0, 2, 0, 1] @ replicate 16 0 @ [1] @ replicate 41 0 @
                 [7, 9, 5, 2, 2, 67, 27] @ replicate 28 0"
  by (simp add: demo_record_def eval_defs)


subsection \<open>When a vault opens\<close>

lemma succeeded_iff: "succeeded r \<longleftrightarrow> (\<exists>x. r = Inr x)"
  by (cases r) (simp_all add: succeeded_def)

lemma hdr_len_64: "RVAULT_HDR_LEN = 64"
  by (simp add: RVAULT_HDR_LEN_def STORAGE_ALIGN_def STORAGE_ALIGNMENT_def roundup2_def
      SIZEOF_HDR_def)

lemma unat_u16_of_bytes_be:
  "unat (u16_of_bytes False b0 b1) = 256 * unat b0 + unat b1"
proof -
  let ?hi = "push_bit 8 (ucast b0 :: u16)" and ?lo = "ucast b1 :: u16"
  have disj: "?hi AND ?lo = 0"
    by (rule bit_word_eqI) (auto simp: bit_simps dest: bit_imp_le_length)
  have "?hi OR ?lo = ?hi + ?lo"
    by (rule disjunctive_add_eq_or [symmetric]) (rule disj)
  then have "unat (u16_of_bytes False b0 b1) = unat (?hi + ?lo)"
    by (simp add: u16_of_bytes_def)
  also have "\<dots> = (unat ?hi + unat ?lo) mod 65536"
    by (simp add: unat_word_ariths)
  finally have e: "unat (u16_of_bytes False b0 b1) = (unat ?hi + unat ?lo) mod 65536" .
  have lt: "unat b0 < 256" "unat b1 < 256"
    using unsigned_less [of b0, where ?'a = nat] unsigned_less [of b1, where ?'a = nat]
    by simp_all
  from lt have lo: "unat ?lo = unat b1"
    by (simp add: unsigned_ucast_eq take_bit_eq_mod)
  from lt have "unat (ucast b0 :: u16) = unat b0"
    by (simp add: unsigned_ucast_eq take_bit_eq_mod)
  then have hi: "unat ?hi = (unat b0 * 256) mod 65536"
    by (simp add: push_bit_eq_mult unat_word_ariths)
  from e lo hi lt show ?thesis by simp
qed

lemma bswap16_u16_of_bytes: "bswap16 (u16_of_bytes True b0 b1) = u16_of_bytes False b0 b1"
  unfolding bswap16_def u16_of_bytes_def
  by (rule bit_word_eqI) (auto simp: bit_simps dest: bit_imp_le_length)

lemma unat_be16toh_u16_of_bytes:
  "unat (be16toh le (u16_of_bytes le b0 b1)) = 256 * unat b0 + unat b1"
  by (cases le) (simp_all add: be16toh_def bswap16_u16_of_bytes unat_u16_of_bytes_be)

lemma u16_of_bytes_swap: "u16_of_bytes True b0 b1 = u16_of_bytes False b1 b0"
  by (simp add: u16_of_bytes_def)

lemma unat_u16_of_bytes:
  "unat (u16_of_bytes le b0 b1) =
     (if le then unat b0 + 256 * unat b1 else 256 * unat b0 + unat b1)"
  by (cases le) (simp_all add: u16_of_bytes_swap unat_u16_of_bytes_be)

text \<open>What the C code reads from a record of at least one header.\<close>

lemma hdr_fields_rec:
  assumes "RVAULT_HDR_LEN \<le> length h"
  shows "hdr_ver h = Inr (h ! OFF_VER)"
    and "hdr_cipher h = Inr (h ! OFF_CIPHER)"
    and "hdr_flags h = Inr (h ! OFF_FLAGS)"
    and "hdr_uid h = Inr (rec_uid h)"
    and "hdr_iv_len le h = Inr (u16_of_bytes le (h ! OFF_IV_LEN) (h ! (OFF_IV_LEN + 1)))"
    and "hdr_kp_len le h = Inr (u16_of_bytes le (h ! OFF_KP_LEN) (h ! (OFF_KP_LEN + 1)))"
  using assms
  by (auto simp add: hdr_len_64 hdr_ver_def hdr_cipher_def hdr_flags_def hdr_uid_def
      hdr_iv_len_def hdr_kp_len_def buf_read8_def buf_read16_def buf_read_def rec_uid_def
      OFF_VER_def OFF_CIPHER_def OFF_FLAGS_def OFF_UID_def UID_LEN_def OFF_IV_LEN_def
      OFF_KP_LEN_def)

lemma hdr_macros_rec:
  assumes "RVAULT_HDR_LEN \<le> length h"
  shows "RVAULT_HDR_TO_KP le h = Inr (RVAULT_HDR_LEN + rec_iv_len h)"
    and "RVAULT_HMAC_DATALEN le h = Inr (rec_data_len h)"
    and "RVAULT_HDR_TO_HMAC le h = Inr (rec_data_len h)"
    and "RVAULT_FILE_LEN le h = Inr (rec_data_len h + HMAC_SHA3_256_BUFLEN)"
  by (simp_all add: RVAULT_HDR_TO_KP_def RVAULT_HMAC_DATALEN_def RVAULT_HDR_TO_HMAC_def
      RVAULT_FILE_LEN_def RVAULT_HDR_TO_IV_def hdr_fields_rec [OF assms]
      unat_be16toh_u16_of_bytes rec_data_len_def rec_iv_len_def rec_kp_len_def be16_at_def)


lemma open_metadata_mmap_Inr_iff:
  "open_metadata_mmap env fs path = Inr (h, bp) \<longleftrightarrow>
   can_alloc env \<and> realpath fs path = Some bp \<and> is_dir fs bp \<and>
   files fs (bp @ ''/'' @ RVAULT_META_FILE env) = Some h \<and> RVAULT_HDR_LEN \<le> length h"
  by (auto simp: open_metadata_mmap_def open_metadata_def get_vault_path_def Let_def
      split: option.splits if_splits sum.splits)

lemma open_metadata_mmap_meta_file:
  "open_metadata_mmap env fs path = Inr (h, bp) \<Longrightarrow> meta_file env fs path = Some h"
  by (simp add: open_metadata_mmap_Inr_iff meta_file_def)

lemma meta_file_open_metadata_mmap:
  assumes "meta_file env fs path = Some h" "can_alloc env" "RVAULT_HDR_LEN \<le> length h"
  shows "\<exists>bp. open_metadata_mmap env fs path = Inr (h, bp)"
  using assms
  by (auto simp: open_metadata_mmap_Inr_iff meta_file_def split: option.splits if_splits)

text \<open>The vault object that \<^verbatim>\<open>rvault_open_hdr\<close> sets up for a record.\<close>

lemma hdr_len_fields_rec:
  assumes "RVAULT_HDR_LEN \<le> length h"
  shows "\<exists>ivl kpl.
           hdr_iv_len le h = Inr ivl \<and> unat (be16toh le ivl) = rec_iv_len h \<and>
           hdr_kp_len le h = Inr kpl \<and> unat (be16toh le kpl) = rec_kp_len h \<and>
           unat kpl = host16_at le h OFF_KP_LEN"
  by (simp add: hdr_fields_rec [OF assms] unat_be16toh_u16_of_bytes unat_u16_of_bytes
      rec_iv_len_def rec_kp_len_def be16_at_def host16_at_def)

lemma rvault_open_hdr_rec:
  assumes l: "RVAULT_HDR_LEN \<le> length h"
  shows "rvault_open_hdr env h server = Inr v0 \<longleftrightarrow>
     can_alloc env \<and> rec_wellformed env h \<and> rec_iv_fits env h \<and>
     v0 = \<lparr>base_path = None, uid = rec_uid h, cipher = rec_cipher h,
           crypto = Some \<lparr>c_cipher = rec_cipher h, c_iv = Some (rec_iv h), c_key = None\<rparr>,
           server_url = server, file_list = [], file_count = 0\<rparr>"
proof -
  from hdr_len_fields_rec [OF l] obtain ivl where
    ivl: "hdr_iv_len (le_host env) h = Inr ivl" "unat (be16toh (le_host env) ivl) = rec_iv_len h"
    by blast
  have rd: "buf_read h RVAULT_HDR_TO_IV (rec_iv_len h) = Inr (rec_iv h)"
    if "rec_data_len h + HMAC_SHA3_256_BUFLEN = length h"
    using that by (simp add: buf_read_def rec_iv_def RVAULT_HDR_TO_IV_def rec_data_len_def)
  have li: "length (rec_iv h) = rec_iv_len h"
    if "rec_data_len h + HMAC_SHA3_256_BUFLEN = length h"
    using that by (simp add: rec_iv_def rec_data_len_def)
  show ?thesis
  proof (cases "rec_data_len h + HMAC_SHA3_256_BUFLEN = length h")
    case False
    then show ?thesis
      using l
      by (auto simp add: rvault_open_hdr_def hdr_fields_rec(1-4) [OF l] hdr_macros_rec [OF l]
          ivl rec_wellformed_def)
  next
    case True
    show ?thesis
      using l True
      by (auto simp add: rvault_open_hdr_def hdr_fields_rec(1-4) [OF l] hdr_macros_rec [OF l]
          ivl rd [OF True] li [OF True]
          Let_def close_fail_eq crypto_create_def crypto_set_iv_def
          rec_wellformed_def rec_iv_fits_def rec_cipher_def
          split: if_splits option.splits)
  qed
qed

text \<open>The key stage of open in closed form.\<close>

lemma rvault_open_key_eq:
  assumes l: "RVAULT_HDR_LEN \<le> length h"
    and c: "crypto v = Some cr0"
  shows "rvault_open_key env h v server pwd =
     (case rec_kdf_input env h of
        None \<Rightarrow> Inl Mem_fault
      | Some kp \<Rightarrow>
          (case kdf_passphrase env pwd kp (cipher_key_len env (c_cipher cr0)) of
             None \<Rightarrow> Inl Passphrase_key_failed
           | Some k \<Rightarrow>
               if rec_noauth h then Inr (cr0\<lparr>c_key := Some k\<rparr>)
               else
                 (case server of
                    None \<Rightarrow> Inl No_server_url
                  | Some url \<Rightarrow>
                      or_fail Key_get_failed
                        (rvault_key_get env url (uid v) (cr0\<lparr>c_key := Some k\<rparr>)))))"
proof -
  from hdr_len_fields_rec [OF l] obtain kpl where
    kpl: "hdr_kp_len (le_host env) h = Inr kpl"
         "unat kpl = host16_at (le_host env) h OFF_KP_LEN"
    by blast
  show ?thesis
    by (simp add: rvault_open_key_def c hdr_fields_rec(1-4) [OF l] hdr_macros_rec [OF l] kpl
        mmap_read_def buf_read_def rec_kdf_input_def Let_def crypto_set_passphrasekey_def
        rec_noauth_def split: option.splits)
qed

lemma rvault_open_key_rec:
  assumes l: "RVAULT_HDR_LEN \<le> length h"
    and c: "crypto v = Some \<lparr>c_cipher = rec_cipher h, c_iv = Some (rec_iv h), c_key = None\<rparr>"
    and u: "uid v = rec_uid h"
  shows "rvault_open_key env h v server pwd = Inr cr \<Longrightarrow>
           c_key cr = effective_key env h server pwd"
    and "effective_key env h server pwd = Some k \<Longrightarrow>
           \<exists>cr. rvault_open_key env h v server pwd = Inr cr \<and> c_key cr = Some k"
  unfolding rvault_open_key_eq [OF l c] effective_key_def u
  by (auto simp: or_fail_Inr_iff split: option.splits if_splits)

text \<open>The HMAC check of open on a record whose length fields match its size.\<close>

lemma rvault_hmac_verify_rec:
  assumes l: "RVAULT_HDR_LEN \<le> length h"
    and len: "rec_data_len h + HMAC_SHA3_256_BUFLEN = length h"
  shows "rvault_hmac_verify env cr h =
           (case c_key cr of
              None \<Rightarrow> Inl Assert_failed
            | Some key \<Rightarrow> Inr (tag_verifies env key h))"
proof -
  have r: "buf_read h 0 (rec_data_len h) = Inr (rec_data h)"
    using len by (simp add: buf_read_def rec_data_def)
  have s: "buf_read h (rec_data_len h) HMAC_SHA3_256_BUFLEN = Inr (rec_tag h)"
    using len by (simp add: buf_read_def rec_tag_def)
  show ?thesis
    by (auto simp add: rvault_hmac_verify_def rvault_hmac_compute_def crypto_get_key_def
        hdr_macros_rec [OF l] r s tag_verifies_def split: option.splits)
qed


lemma rvault_open_Inr_iff:
  "rvault_open env fs path server pwd = Inr v \<longleftrightarrow>
   (\<exists>hdr bp v0 cr.
      open_metadata_mmap env fs path = Inr (hdr, bp) \<and>
      rvault_open_hdr env hdr server = Inr v0 \<and>
      rvault_open_key env hdr (v0\<lparr>base_path := Some bp\<rparr>) server pwd = Inr cr \<and>
      rvault_hmac_verify env cr hdr = Inr True \<and>
      v = v0\<lparr>base_path := Some bp, crypto := Some cr\<rparr>)"
proof (cases "open_metadata_mmap env fs path")
  case (Inl e)
  then show ?thesis by (simp add: rvault_open_def)
next
  case (Inr p)
  obtain hdr bp where p: "p = (hdr, bp)" by (cases p)
  show ?thesis
  proof (cases "rvault_open_hdr env hdr server")
    case (Inl e)
    with Inr p show ?thesis by (simp add: rvault_open_def)
  next
    case v0: (Inr v0)
    show ?thesis
    proof (cases "rvault_open_key env hdr (v0\<lparr>base_path := Some bp\<rparr>) server pwd")
      case (Inl e)
      with Inr p v0 show ?thesis
        by (simp add: rvault_open_def Let_def close_fail_def and_then_def split: sum.splits)
    next
      case cr: (Inr cr)
      show ?thesis
      proof (cases "rvault_hmac_verify env cr hdr")
        case (Inl e)
        with Inr p v0 cr show ?thesis
          by (simp add: rvault_open_def rvault_open_verify_def Let_def close_fail_def
              and_then_def split: sum.splits)
      next
        case ok: (Inr ok)
        with Inr p v0 cr show ?thesis
          by (cases ok)
             (auto simp add: rvault_open_def rvault_open_verify_def Let_def close_fail_def
              and_then_def split: sum.splits)
      qed
    qed
  qed
qed

lemma rvault_open_verification_failed:
  assumes "open_metadata_mmap env fs path = Inr (hdr, bp)"
    and "rvault_open_hdr env hdr server = Inr v0"
    and "rvault_open_key env hdr (v0\<lparr>base_path := Some bp\<rparr>) server pwd = Inr cr"
    and "rvault_hmac_verify env cr hdr = Inr False"
  shows "rvault_open env fs path server pwd = Inl Verification_failed"
  using assms rvault_open_hdr_Inr [OF assms(2)]
  by (simp add: rvault_open_def rvault_open_verify_def Let_def close_fail_eq)

text \<open>
  Open on a well-formed record with the right IV length and an effective key: the
  outcome is decided by the tag.
\<close>

lemma rvault_open_decided_by_tag:
  assumes m: "meta_file env fs path = Some h" and a: "can_alloc env"
    and wf: "rec_wellformed env h" and iv: "rec_iv_fits env h"
    and k: "effective_key env h server pwd = Some k"
  shows "tag_verifies env k h \<Longrightarrow> succeeded (rvault_open env fs path server pwd)"
    and "\<not> tag_verifies env k h \<Longrightarrow>
           rvault_open env fs path server pwd = Inl Verification_failed"
proof -
  from wf have l: "RVAULT_HDR_LEN \<le> length h"
    and len: "rec_data_len h + HMAC_SHA3_256_BUFLEN = length h"
    by (simp_all add: rec_wellformed_def)
  from meta_file_open_metadata_mmap [OF m a l] obtain bp where
    mm: "open_metadata_mmap env fs path = Inr (h, bp)" ..
  let ?v0 = "\<lparr>base_path = None, uid = rec_uid h, cipher = rec_cipher h,
           crypto = Some \<lparr>c_cipher = rec_cipher h, c_iv = Some (rec_iv h), c_key = None\<rparr>,
           server_url = server, file_list = [], file_count = 0\<rparr>"
  have v0: "rvault_open_hdr env h server = Inr ?v0"
    using a wf iv by (simp add: rvault_open_hdr_rec [OF l])
  have "\<exists>cr. rvault_open_key env h (?v0\<lparr>base_path := Some bp\<rparr>) server pwd = Inr cr \<and>
      c_key cr = Some k"
    using k by (intro rvault_open_key_rec(2) [OF l]) simp_all
  then obtain cr where
    cr: "rvault_open_key env h (?v0\<lparr>base_path := Some bp\<rparr>) server pwd = Inr cr"
        "c_key cr = Some k"
    by blast
  have hv: "rvault_hmac_verify env cr h = Inr (tag_verifies env k h)"
    using cr(2) by (simp add: rvault_hmac_verify_rec [OF l len])
  show "succeeded (rvault_open env fs path server pwd)" if "tag_verifies env k h"
    using mm v0 cr(1) hv that unfolding succeeded_iff rvault_open_Inr_iff by auto
  show "rvault_open env fs path server pwd = Inl Verification_failed"
    if "\<not> tag_verifies env k h"
    using rvault_open_verification_failed [OF mm v0 cr(1)] hv that by simp
qed

lemma rvault_open_succeededD:
  assumes "succeeded (rvault_open env fs path server pwd)"
  shows "\<exists>h k. meta_file env fs path = Some h \<and> can_alloc env \<and> rec_wellformed env h \<and>
           rec_iv_fits env h \<and> effective_key env h server pwd = Some k \<and>
           tag_verifies env k h"
proof -
  from assms obtain h bp v0 cr where
    s: "open_metadata_mmap env fs path = Inr (h, bp)"
       "rvault_open_hdr env h server = Inr v0"
       "rvault_open_key env h (v0\<lparr>base_path := Some bp\<rparr>) server pwd = Inr cr"
       "rvault_hmac_verify env cr h = Inr True"
    unfolding succeeded_iff rvault_open_Inr_iff by blast
  from s(1) have l: "RVAULT_HDR_LEN \<le> length h" and a: "can_alloc env"
    by (simp_all add: open_metadata_mmap_Inr_iff)
  from s(2) have h: "rec_wellformed env h" "rec_iv_fits env h"
    and v0: "v0 = \<lparr>base_path = None, uid = rec_uid h, cipher = rec_cipher h,
           crypto = Some \<lparr>c_cipher = rec_cipher h, c_iv = Some (rec_iv h), c_key = None\<rparr>,
           server_url = server, file_list = [], file_count = 0\<rparr>"
    by (simp_all add: rvault_open_hdr_rec [OF l])
  from h(1) have len: "rec_data_len h + HMAC_SHA3_256_BUFLEN = length h"
    by (simp add: rec_wellformed_def)
  have ek: "c_key cr = effective_key env h server pwd"
    using s(3) by (rule rvault_open_key_rec(1) [OF l, rotated 2]) (simp_all add: v0)
  from s(4) obtain k where k: "c_key cr = Some k" "tag_verifies env k h"
    by (auto simp: rvault_hmac_verify_rec [OF l len] split: option.splits)
  from ek k(1) have "effective_key env h server pwd = Some k" by simp
  with k(2) open_metadata_mmap_meta_file [OF s(1)] a h show ?thesis
    by blast
qed



lemma rec_kdf_input_eval:
  "rec_kdf_input env h =
     (if RVAULT_HDR_LEN + rec_iv_len h + host16_at (le_host env) h OFF_KP_LEN \<le> length h
      then Some (take (host16_at (le_host env) h OFF_KP_LEN)
                   (drop (RVAULT_HDR_LEN + rec_iv_len h) h))
      else if RVAULT_HDR_LEN + rec_iv_len h + host16_at (le_host env) h OFF_KP_LEN
              \<le> length h + (page_size env - length h mod page_size env) mod page_size env
      then Some (take (host16_at (le_host env) h OFF_KP_LEN)
                   (drop (RVAULT_HDR_LEN + rec_iv_len h)
                      (h @ replicate ((page_size env - length h mod page_size env) mod
                                       page_size env) 0)))
      else None)"
  by (simp add: rec_kdf_input_def Let_def)

lemmas rec_defs =
  open_conditions_def listed_conditions_def meta_file_def rec_wellformed_def rec_iv_fits_def
  effective_key_def rec_kdf_input_eval host16_at_def tag_verifies_def rec_tag_def rec_data_def
  rec_data_len_def rec_iv_def rec_noauth_def rec_uid_def rec_kp_len_def rec_iv_len_def
  rec_cipher_def be16_at_def




subsection \<open>Wrong passphrase and tampered metadata\<close>

text \<open>
  The checks that open makes before it derives a key read the first six bytes of the
  record (version, cipher, the two lengths) and its size, and nothing else.
\<close>

lemma rec_checks_first_bytes:
  assumes "length h' = length h" and "take 6 h' = take 6 h"
  shows "rec_wellformed env h' \<longleftrightarrow> rec_wellformed env h"
    and "rec_iv_fits env h' \<longleftrightarrow> rec_iv_fits env h"
proof -
  have n: "h' ! i = h ! i" if "i < 6" for i
  proof -
    from that have "h' ! i = take 6 h' ! i" "h ! i = take 6 h ! i" by simp_all
    with assms(2) show ?thesis by simp
  qed
  have "rec_cipher h' = rec_cipher h" "rec_iv_len h' = rec_iv_len h"
    "rec_kp_len h' = rec_kp_len h" "h' ! OFF_VER = h ! OFF_VER"
    by (simp_all add: rec_cipher_def rec_iv_len_def rec_kp_len_def be16_at_def n
        OFF_CIPHER_def OFF_IV_LEN_def OFF_KP_LEN_def OFF_VER_def)
  with assms(1) show "rec_wellformed env h' \<longleftrightarrow> rec_wellformed env h"
    and "rec_iv_fits env h' \<longleftrightarrow> rec_iv_fits env h"
    by (simp_all add: rec_wellformed_def rec_iv_fits_def rec_data_len_def)
qed

text \<open>
  Claim C4, as stated: a wrong passphrase and tampered metadata give the same failure.
  Not for every tampering: with the vault of the small environment, a wrong passphrase
  fails in the HMAC check, a changed version byte fails as an incompatible version, and
  a changed length field fails as a corrupted metadata file.
\<close>

theorem open_failures_indistinguishable_counterexample:
  "succeeded (rvault_open (demo_env False) demo_fs_good ''/v'' None ''pw'') \<and>
   rvault_open (demo_env False) demo_fs_good ''/v'' None ''pwd'' = Inl Verification_failed \<and>
   rvault_open (demo_env False) demo_fs_tampered_ver ''/v'' None ''pw'' =
     Inl Incompatible_version \<and>
   rvault_open (demo_env False) demo_fs_tampered_len ''/v'' None ''pw'' =
     Inl Metadata_corrupted"
  by (simp add: eval_defs demo_fs_good_def demo_fs_tampered_ver_def
      demo_fs_tampered_len_def demo_record_eq succeeded_def Let_def close_files_loop_eq)

text \<open>
  Claim C4, amended.  Take a well-formed metadata record.  Opening it with a wrong
  passphrase, and opening with the right passphrase a record of the same size that has
  been tampered with anywhere outside its first six bytes (in the tag, the IV, the KDF
  parameters, the UID, the flags or the padding), both fail in the branch of the HMAC
  verification with the same result, the failure that is reported as
  \<open>verification failed\<close>, provided that in each run the key stage still yields a key and
  the stored tag is not the HMAC of header, IV and KDF parameters under that key.
\<close>

theorem open_failures_indistinguishable:
  assumes alloc: "can_alloc env"
    and rec: "meta_file env fs path = Some h"
    and wf: "rec_wellformed env h" "rec_iv_fits env h"
    and wrong: "effective_key env h server pwd' = Some k'" "\<not> tag_verifies env k' h"
    and rec': "meta_file env fs' path = Some h'"
    and same: "length h' = length h" "take 6 h' = take 6 h"
    and tampered: "effective_key env h' server pwd = Some k" "\<not> tag_verifies env k h'"
  shows "rvault_open env fs path server pwd' = Inl Verification_failed \<and>
         rvault_open env fs' path server pwd = Inl Verification_failed"
proof
  show "rvault_open env fs path server pwd' = Inl Verification_failed"
    using rec alloc wf wrong by (rule rvault_open_decided_by_tag(2))
  from wf have "rec_wellformed env h'" "rec_iv_fits env h'"
    by (simp_all add: rec_checks_first_bytes [OF same])
  with rec' alloc show "rvault_open env fs' path server pwd = Inl Verification_failed"
    using tampered by (rule rvault_open_decided_by_tag(2))
qed

theorem open_failures_indistinguishable_witness:
  "can_alloc (demo_env False) \<and>
   meta_file (demo_env False) demo_fs_good ''/v'' = Some demo_record \<and>
   rec_wellformed (demo_env False) demo_record \<and> rec_iv_fits (demo_env False) demo_record \<and>
   effective_key (demo_env False) demo_record None ''pwd'' = Some [3, 3] \<and>
   \<not> tag_verifies (demo_env False) [3, 3] demo_record \<and>
   meta_file (demo_env False) demo_fs_tampered_iv ''/v'' = Some (demo_record[64 := 8]) \<and>
   length (demo_record[64 := 8]) = length demo_record \<and>
   take 6 (demo_record[64 := 8]) = take 6 demo_record \<and>
   effective_key (demo_env False) (demo_record[64 := 8]) None ''pw'' = Some [2, 2] \<and>
   \<not> tag_verifies (demo_env False) [2, 2] (demo_record[64 := 8]) \<and>
   rvault_open (demo_env False) demo_fs_good ''/v'' None ''pwd'' = Inl Verification_failed \<and>
   rvault_open (demo_env False) demo_fs_tampered_iv ''/v'' None ''pw'' = Inl Verification_failed \<and>
   meta_file (demo_env False) demo_fs_tampered ''/v'' =
     Some (take 67 demo_record @ replicate 32 255) \<and>
   rvault_open (demo_env False) demo_fs_tampered ''/v'' None ''pw'' = Inl Verification_failed"
proof -
  have h1: "can_alloc (demo_env False)"
    by (simp add: demo_env_def)
  have h2: "meta_file (demo_env False) demo_fs_good ''/v'' = Some demo_record"
    by (simp add: meta_file_def demo_fs_good_def demo_fs_def demo_env_def)
  have h3: "rec_wellformed (demo_env False) demo_record" "rec_iv_fits (demo_env False) demo_record"
    by (simp_all add: eval_defs rec_defs demo_record_eq)
  have h4: "effective_key (demo_env False) demo_record None ''pwd'' = Some [3, 3]"
    by (simp add: eval_defs rec_defs demo_record_eq)
  have h5: "\<not> tag_verifies (demo_env False) [3, 3] demo_record"
    by (simp add: eval_defs rec_defs demo_record_eq)
  have h6: "meta_file (demo_env False) demo_fs_tampered_iv ''/v'' = Some (demo_record[64 := 8])"
    by (simp add: meta_file_def demo_fs_tampered_iv_def demo_fs_def demo_env_def)
  have h7: "length (demo_record[64 := 8]) = length demo_record"
    "take 6 (demo_record[64 := 8]) = take 6 demo_record"
    by (simp_all add: demo_record_eq)
  have h8: "effective_key (demo_env False) (demo_record[64 := 8]) None ''pw'' = Some [2, 2]"
    by (simp add: eval_defs rec_defs demo_record_eq)
  have h9: "\<not> tag_verifies (demo_env False) [2, 2] (demo_record[64 := 8])"
    by (simp add: eval_defs rec_defs demo_record_eq)
  have t6: "meta_file (demo_env False) demo_fs_tampered ''/v'' =
      Some (take 67 demo_record @ replicate 32 255)"
    by (simp add: meta_file_def demo_fs_tampered_def demo_fs_def demo_env_def)
  have t7: "length (take 67 demo_record @ replicate 32 255) = length demo_record"
    "take 6 (take 67 demo_record @ replicate 32 255) = take 6 demo_record"
    by (simp_all add: demo_record_eq)
  have t8: "effective_key (demo_env False) (take 67 demo_record @ replicate 32 255) None ''pw'' =
      Some [2, 2]"
    by (simp add: eval_defs rec_defs demo_record_eq)
  have t9: "\<not> tag_verifies (demo_env False) [2, 2] (take 67 demo_record @ replicate 32 255)"
    by (simp add: eval_defs rec_defs demo_record_eq)
  from open_failures_indistinguishable [OF h1 h2 h3 h4 h5 h6 h7 h8 h9]
    open_failures_indistinguishable [OF h1 h2 h3 h4 h5 t6 t7 t8 t9]
    h1 h2 h3 h4 h5 h6 h7 h8 h9 t6
  show ?thesis by simp
qed

subsection \<open>Initialization over an existing vault\<close>

lemma buf_write_seg:
  "length a = off \<Longrightarrow> length b = length src \<Longrightarrow>
   buf_write (a @ b @ c) off src = Inr (a @ src @ c)"
  by (simp add: buf_write_def)

lemma init_hdr_fields_layout:
  assumes iv: "length iv \<le> UINT16_MAX"
  shows "init_hdr_fields env
           (replicate (RVAULT_HDR_LEN + length iv + length kp + HMAC_SHA3_256_BUFLEN) 0)
           ciph flags iv kp =
         Inr ([RVAULT_ABI_VER env, of_nat ciph] @ be16_bytes (length iv) @
              u16_bytes (le_host env) (of_nat (length kp)) @ replicate UID_LEN 0 @
              [ucast flags] @ replicate (RVAULT_HDR_LEN - SIZEOF_HDR) 0 @ iv @ kp @
              replicate HMAC_SHA3_256_BUFLEN 0)"
proof -
  define Z :: "nat \<Rightarrow> bytes" where "Z n = replicate n 0" for n
  define V C F K I where "V = [RVAULT_ABI_VER env]" and "C = [of_nat ciph :: byte]"
    and "F = [ucast flags :: byte]" and "K = u16_bytes (le_host env) (of_nat (length kp))"
    and "I = u16_bytes (le_host env) (htobe16 (le_host env) (of_nat (length iv)))"
  have len [simp]: "length (Z n) = n" "length V = 1" "length C = 1" "length F = 1"
    "length K = 2" "length I = 2" for n
    by (simp_all add: Z_def V_def C_def F_def K_def I_def u16_bytes_def)
  have Zadd: "Z (a + b) = Z a @ Z b" for a b
    by (simp add: Z_def replicate_add)
  have "replicate (RVAULT_HDR_LEN + length iv + length kp + HMAC_SHA3_256_BUFLEN) 0 =
      Z (1 + (1 + (2 + (2 + (16 + (1 + (41 + (length iv + (length kp + 32)))))))))"
    by (simp add: Z_def hdr_len_64 HMAC_SHA3_256_BUFLEN_def)
  also have "\<dots> =
      Z 1 @ Z 1 @ Z 2 @ Z 2 @ Z 16 @ Z 1 @ Z 41 @ Z (length iv) @ Z (length kp) @ Z 32"
    by (simp only: Zadd)
  finally have h0:
    "replicate (RVAULT_HDR_LEN + length iv + length kp + HMAC_SHA3_256_BUFLEN) 0 =
      Z 1 @ Z 1 @ Z 2 @ Z 2 @ Z 16 @ Z 1 @ Z 41 @ Z (length iv) @ Z (length kp) @ Z 32" .
  have w1: "buf_write (Z 1 @ R) 0 V = Inr (V @ R)" for R
    using buf_write_seg [of "[]" 0 "Z 1" V R] by simp
  have w2: "buf_write (V @ Z 1 @ R) 1 C = Inr (V @ C @ R)" for R
    using buf_write_seg [of V 1 "Z 1" C R] by simp
  have w3: "buf_write (V @ C @ Z 2 @ Z 2 @ Z 16 @ Z 1 @ R) 22 F =
      Inr (V @ C @ Z 2 @ Z 2 @ Z 16 @ F @ R)" for R
    using buf_write_seg [of "V @ C @ Z 2 @ Z 2 @ Z 16" 22 "Z 1" F R] by simp
  have w4: "buf_write (V @ C @ Z 2 @ Z 2 @ R) 4 K = Inr (V @ C @ Z 2 @ K @ R)" for R
    using buf_write_seg [of "V @ C @ Z 2" 4 "Z 2" K R] by simp
  have w5: "buf_write (V @ C @ Z 2 @ R) 2 I = Inr (V @ C @ I @ R)" for R
    using buf_write_seg [of "V @ C" 2 "Z 2" I R] by simp
  have w6: "buf_write (V @ C @ I @ K @ Z 16 @ F @ Z 41 @ Z (length iv) @ R) 64 iv =
      Inr (V @ C @ I @ K @ Z 16 @ F @ Z 41 @ iv @ R)" for R
    using buf_write_seg [of "V @ C @ I @ K @ Z 16 @ F @ Z 41" 64 "Z (length iv)" iv R] by simp
  have w7: "buf_write (V @ C @ I @ K @ Z 16 @ F @ Z 41 @ iv @ Z (length kp) @ R)
      (64 + length iv) kp = Inr (V @ C @ I @ K @ Z 16 @ F @ Z 41 @ iv @ kp @ R)" for R
    using buf_write_seg [of "V @ C @ I @ K @ Z 16 @ F @ Z 41 @ iv" "64 + length iv"
        "Z (length kp)" kp R] by simp
  have "unat (of_nat (length iv) :: u16) = length iv"
    using iv by (simp add: unat_of_nat UINT16_MAX_def)
  then have off: "RVAULT_HDR_TO_KP (le_host env) (V @ C @ I @ R) = Inr (64 + length iv)" for R
    using u16_of_bytes_u16_bytes [of "le_host env" "htobe16 (le_host env) (of_nat (length iv))"]
    by (simp add: RVAULT_HDR_TO_KP_def hdr_iv_len_def buf_read16_def OFF_IV_LEN_def nth_append
        RVAULT_HDR_TO_IV_def hdr_len_64 be16toh_htobe16 flip: I_def)
  have main: "init_hdr_fields env
      (Z 1 @ Z 1 @ Z 2 @ Z 2 @ Z 16 @ Z 1 @ Z 41 @ Z (length iv) @ Z (length kp) @ Z 32)
      ciph flags iv kp =
      Inr (V @ C @ I @ K @ Z 16 @ F @ Z 41 @ iv @ kp @ Z 32)"
    unfolding init_hdr_fields_def OFF_VER_def OFF_CIPHER_def OFF_FLAGS_def OFF_KP_LEN_def
      OFF_IV_LEN_def RVAULT_HDR_TO_IV_def hdr_len_64
      V_def [symmetric] C_def [symmetric] F_def [symmetric] K_def [symmetric] I_def [symmetric]
    by (simp only: w1 w2 w3 w4 w5 w6 w7 off and_then_simps)
  have "I = be16_bytes (length iv)"
    using iv by (simp add: I_def u16_bytes_htobe16 UINT16_MAX_def)
  with main [folded h0] show ?thesis
    by (simp add: Z_def V_def C_def F_def K_def hdr_len_64 SIZEOF_HDR_def UID_LEN_def
        HMAC_SHA3_256_BUFLEN_def)
qed


lemma be16_at_be16_bytes:
  assumes "n \<le> 65535" and "length a = off"
  shows "be16_at (a @ be16_bytes n @ R) off = n"
proof -
  from assms(1) have "n div 256 < 256" by simp
  then have "unat (of_nat (n div 256) :: byte) = n div 256"
    by (simp add: unat_of_nat)
  moreover have "unat (of_nat (n mod 256) :: byte) = n mod 256"
    by (simp add: unat_of_nat)
  ultimately show ?thesis
    using assms(2) by (simp add: be16_at_def be16_bytes_def nth_append)
qed

lemma u16_bytes_of_length:
  assumes "length kp \<le> UINT8_MAX" and "le \<longrightarrow> kp = []"
  shows "u16_bytes le (of_nat (length kp)) = be16_bytes (length kp)"
proof (cases le)
  case True
  with assms(2) show ?thesis by (simp add: u16_bytes_def be16_bytes_def)
next
  case False
  with assms(1) show ?thesis by (simp add: u16_bytes_big_endian UINT8_MAX_def)
qed

lemma length_hmac_buf: "length (hmac_buf t) = HMAC_SHA3_256_BUFLEN"
  by (simp add: hmac_buf_def)

text \<open>The record that \<^verbatim>\<open>rvault_init\<close> builds when all its steps succeed.\<close>

lemma init_steps_succeed_record:
  assumes "init_steps_succeed env server pwd uid_str cipher_str flags"
  shows "\<exists>ciph iv kp u t.
           init_record env server pwd uid_str cipher_str flags =
             Inr (init_data env ciph flags iv kp u @ hmac_buf t)"
proof -
  define ciph where "ciph = (case cipher_str of None \<Rightarrow> CRYPTO_CIPHER_PRIMARY env
                  | Some s \<Rightarrow> crypto_cipher_id env s)"
  from assms have c: "cipher_str \<noteq> None \<longrightarrow> ciph \<noteq> CIPHER_NONE" "cipher_supported env ciph"
       "ciph \<le> UINT8_MAX" "unat flags \<le> UINT8_MAX" "can_alloc env"
    by (simp_all add: init_steps_succeed_def Let_def ciph_def)
  from assms obtain iv kp u where
    g: "random_iv env ciph = Some iv" "kdf_create_params env = Some kp"
       "hex_read_arbitrary_buf env uid_str = Some u"
    and l: "length iv = cipher_iv_len env ciph" "length iv \<le> UINT16_MAX"
       "length kp \<le> UINT8_MAX" "le_host env \<longrightarrow> kp = []" "length u = UID_LEN"
    and ik: "(case init_key env server pwd flags ciph iv kp u of
                None \<Rightarrow> False
              | Some k \<Rightarrow> hmac_sha3_256 env k (init_data env ciph flags iv kp u) \<noteq> None)"
    unfolding init_steps_succeed_def Let_def ciph_def [symmetric]
    by (simp split: option.splits)
  from ik obtain k t where
    k': "init_key env server pwd flags ciph iv kp u = Some k"
    and t: "hmac_sha3_256 env k (init_data env ciph flags iv kp u) = Some t"
    by (auto split: option.splits)
  from k' obtain k0 cr where
    k0: "kdf_passphrase env pwd kp (cipher_key_len env ciph) = Some k0"
    and cr: "init_register env server u \<lparr>c_cipher = ciph, c_iv = Some iv, c_key = Some k0\<rparr> flags =
      Inr cr"
    and k: "c_key cr = Some k"
    by (auto simp: init_key_def init_register_def or_fail_Inr_iff split: option.splits if_splits)
  let ?D = "init_data env ciph flags iv kp u"
  let ?N = "RVAULT_HDR_LEN + length iv + length kp + HMAC_SHA3_256_BUFLEN"
  have s1: "init_cipher env cipher_str = Inr ciph"
    using c(1) by (auto simp: init_cipher_def ciph_def split: option.splits)
  have s2: "crypto_create env ciph = Some \<lparr>c_cipher = ciph, c_iv = None, c_key = None\<rparr>"
    using c(2) by (simp add: crypto_create_def)
  have s3: "crypto_gen_iv env \<lparr>c_cipher = ciph, c_iv = None, c_key = None\<rparr> = Some iv"
    using g(1) by (simp add: crypto_gen_iv_def)
  have s4: "crypto_set_iv env \<lparr>c_cipher = ciph, c_iv = None, c_key = None\<rparr> iv =
      Some \<lparr>c_cipher = ciph, c_iv = Some iv, c_key = None\<rparr>"
    using l(1) by (simp add: crypto_set_iv_def)
  have s5: "crypto_set_passphrasekey env \<lparr>c_cipher = ciph, c_iv = Some iv, c_key = None\<rparr> pwd kp =
      Some \<lparr>c_cipher = ciph, c_iv = Some iv, c_key = Some k0\<rparr>"
    using k0 by (simp add: crypto_set_passphrasekey_def)
  have s6: "calloc (can_alloc env) ?N = Inr (replicate ?N 0)"
    using c(5) by (simp add: calloc_def)
  have kb: "u16_bytes (le_host env) (of_nat (length kp)) = be16_bytes (length kp)"
    using l(3,4) by (rule u16_bytes_of_length)
  let ?P = "[RVAULT_ABI_VER env, of_nat ciph] @ be16_bytes (length iv) @ be16_bytes (length kp)"
  let ?S = "[ucast flags] @ replicate (RVAULT_HDR_LEN - SIZEOF_HDR) 0 @ iv @ kp"
  have s7: "init_hdr_fields env (replicate ?N 0) ciph flags iv kp =
      Inr (?P @ replicate UID_LEN 0 @ ?S @ replicate HMAC_SHA3_256_BUFLEN 0)"
    using init_hdr_fields_layout [OF l(2), of env kp ciph flags] by (simp add: kb)
  have s8: "init_uid env uid_str = Inr u"
    using g(3) l(5) by (simp add: init_uid_def)
  have lP: "length ?P = OFF_UID"
    by (simp add: be16_bytes_def OFF_UID_def)
  have s9: "buf_write (?P @ replicate UID_LEN 0 @ ?S @ replicate HMAC_SHA3_256_BUFLEN 0) OFF_UID u =
      Inr (?D @ replicate HMAC_SHA3_256_BUFLEN 0)"
    using buf_write_seg [OF lP, of "replicate UID_LEN 0" u
        "?S @ replicate HMAC_SHA3_256_BUFLEN 0"] l(5)
    by (simp add: init_data_def)
  note s10 = cr
  have lD: "length ?D = RVAULT_HDR_LEN + length iv + length kp"
    using l(5) by (simp add: init_data_def be16_bytes_def hdr_len_64 SIZEOF_HDR_def UID_LEN_def)
  let ?h = "?D @ replicate HMAC_SHA3_256_BUFLEN 0"
  have l64: "RVAULT_HDR_LEN \<le> length ?h"
    by (simp add: lD)
  have "rec_iv_len ?h = length iv"
    using l(2) be16_at_be16_bytes [of "length iv" "[RVAULT_ABI_VER env, of_nat ciph]" OFF_IV_LEN]
    by (simp add: rec_iv_len_def init_data_def OFF_IV_LEN_def UINT16_MAX_def)
  moreover have "rec_kp_len ?h = length kp"
    using l(3) be16_at_be16_bytes [of "length kp"
        "[RVAULT_ABI_VER env, of_nat ciph] @ be16_bytes (length iv)" OFF_KP_LEN]
    by (simp add: rec_kp_len_def init_data_def OFF_KP_LEN_def UINT8_MAX_def be16_bytes_def)
  ultimately have dl: "rec_data_len ?h = length ?D"
    by (simp add: rec_data_len_def lD)
  have rd: "buf_read ?h 0 (length ?D) = Inr ?D"
    by (simp add: buf_read_def)
  have wr: "buf_write ?h (length ?D) (hmac_buf t) = Inr (?D @ hmac_buf t)"
    using buf_write_seg [of ?D "length ?D" "replicate HMAC_SHA3_256_BUFLEN 0" "hmac_buf t" "[]"]
    by (simp add: length_hmac_buf)
  have s11: "init_hmac env cr ?h = Inr (?D @ hmac_buf t)"
    by (simp add: init_hmac_def rvault_hmac_compute_def crypto_get_key_def k
        hdr_macros_rec [OF l64] dl rd t wr)
  have a: "ASSERT (length kp \<le> UINT8_MAX) = Inr ()" "ASSERT (length iv \<le> UINT16_MAX) = Inr ()"
    "ASSERT (ciph \<le> UINT8_MAX) = Inr ()" "ASSERT (unat flags \<le> UINT8_MAX) = Inr ()"
    using c(3,4) l(2,3) by (simp_all add: ASSERT_def)
  have "init_record env server pwd uid_str cipher_str flags = Inr (?D @ hmac_buf t)"
    unfolding init_record_def
    by (simp only: s1 s2 s3 s4 g(2) s5 s6 s7 s8 s9 s10 s11 a and_then_simps or_fail_simps)
  then show ?thesis by blast
qed




end
